theory Spec2Isabelle
  imports Complex_Main "HOL-Library.AList" "HOL-Library.Sublist" "HOL-Library.Log_Nat"
begin

section \<open>Conventions of the embedding\<close>

text \<open>
  The development embeds \<^verbatim>\<open>src/builder.py\<close>.

  \<^item> A Python \<^verbatim>\<open>str\<close> is a \<^typ>\<open>string\<close>; a character is read as a code point
    below 256, so the character classes below are Python's classes on that range.
  \<^item> A Python \<^verbatim>\<open>float\<close> is a binary64 number. Where the source computes with floats
    (the matrix of \<^verbatim>\<open>calculate_distance_of_ion\<close>), a float is a \<open>pydouble\<close>: a finite
    value, the negative zero, an infinity or the nan, and \<open>+\<close> and \<open>*\<close> round to the
    nearest double, a tie to the even one, and overflow to an infinity. A radius that
    \<^verbatim>\<open>find_potcar\<close> reads from a decimal text, compares and stores is carried as the
    rational value of that text (\<open>pyfloat\<close>): \<^verbatim>\<open>float()\<close> is monotone, so \<^verbatim>\<open>min\<close> and the
    comparisons select the same occurrence, and the value is rounded to its double by
    \<open>round_double\<close> where the arithmetic on it starts. The pressure and the area of the 2D
    mode are kept as rational values.
  \<^item> A Python \<^verbatim>\<open>int\<close> is an \<^typ>\<open>int\<close>.
  \<^item> A \<^verbatim>\<open>dict\<close> is an association list with distinct keys in insertion order;
    assignment to a key is \<^const>\<open>AList.update\<close>, which overwrites in place or appends.
  \<^item> A raised exception is the left injection of a sum; every exception carries its
    message.
\<close>

type_synonym pyfloat = rat

type_synonym path = "string list"

datatype error =
    FileNotFoundError string
  | ValueError string
  | KeyError string
  | IndexError string
  | OSError string

section \<open>Sequencing and dictionaries\<close>

fun mapM :: "('a \<Rightarrow> error + 'b) \<Rightarrow> 'a list \<Rightarrow> error + 'b list" where
  "mapM f [] = Inr []"
| "mapM f (x # xs) =
     (case f x of
        Inl e \<Rightarrow> Inl e
      | Inr y \<Rightarrow> (case mapM f xs of Inl e \<Rightarrow> Inl e | Inr ys \<Rightarrow> Inr (y # ys)))"

text \<open>\<^verbatim>\<open>d[k]\<close>: the value stored under \<open>k\<close>, or \<^verbatim>\<open>KeyError\<close>.\<close>

definition dict_get :: "(string \<times> 'v) list \<Rightarrow> string \<Rightarrow> error + 'v" where
  "dict_get d k = (case map_of d k of None \<Rightarrow> Inl (KeyError k) | Some v \<Rightarrow> Inr v)"

section \<open>Python's character classes and string methods\<close>

text \<open>\<^verbatim>\<open>str.isspace\<close> on one character, which is also the class \<^verbatim>\<open>\s\<close> of \<^verbatim>\<open>re\<close>.\<close>

definition isspace :: "char \<Rightarrow> bool" where
  "isspace c \<longleftrightarrow>
     c \<in> set [CHR 0x09, CHR 0x0A, CHR 0x0B, CHR 0x0C, CHR 0x0D, CHR 0x1C, CHR 0x1D, CHR 0x1E,
               CHR 0x1F, CHR 0x20, CHR 0x85, CHR 0xA0]"

text \<open>The class \<^verbatim>\<open>\d\<close>: the decimal digits.\<close>

definition isdigit :: "char \<Rightarrow> bool" where
  "isdigit c \<longleftrightarrow> c \<in> set ''0123456789''"

definition digit_val :: "char \<Rightarrow> nat" where
  "digit_val c = of_char c - 48"

definition digit_char :: "nat \<Rightarrow> char" where
  "digit_char d = ''0123456789'' ! d"

fun nat_of_digits :: "string \<Rightarrow> nat \<Rightarrow> nat" where
  "nat_of_digits [] acc = acc"
| "nat_of_digits (c # cs) acc = nat_of_digits cs (10 * acc + digit_val c)"

text \<open>\<^verbatim>\<open>str(n)\<close> for an integer.\<close>

function str_nat :: "nat \<Rightarrow> string" where
  "str_nat n = (if n < 10 then [digit_char n] else str_nat (n div 10) @ [digit_char (n mod 10)])"
  by pat_completeness auto
termination
  by (relation "measure id") auto

declare str_nat.simps [simp del]

definition str_int :: "int \<Rightarrow> string" where
  "str_int i = (if i < 0 then CHR ''-'' # str_nat (nat (- i)) else str_nat (nat i))"

text \<open>
  \<^verbatim>\<open>float(s)\<close> on the decimal forms that the regular expressions below can capture:
  an optional sign, digits, and an optional point followed by digits. Other forms
  never reach it from this program and are answered with \<^verbatim>\<open>ValueError\<close>.
\<close>

definition float_unsigned :: "string \<Rightarrow> error + pyfloat" where
  "float_unsigned s =
     (let ip = takeWhile isdigit s; rest = dropWhile isdigit s
      in case rest of
           [] \<Rightarrow> if ip = [] then Inl (ValueError s) else Inr (of_nat (nat_of_digits ip 0))
         | c # fr \<Rightarrow>
             if c = CHR ''.'' \<and> list_all isdigit fr \<and> (ip \<noteq> [] \<or> fr \<noteq> [])
             then Inr (of_nat (nat_of_digits ip 0) + of_nat (nat_of_digits fr 0) / 10 ^ length fr)
             else Inl (ValueError s))"

definition py_float :: "string \<Rightarrow> error + pyfloat" where
  "py_float s =
     (case s of
        [] \<Rightarrow> Inl (ValueError s)
      | c # cs \<Rightarrow>
          if c = CHR ''-'' then (case float_unsigned cs of Inl e \<Rightarrow> Inl (ValueError s) | Inr v \<Rightarrow> Inr (- v))
          else if c = CHR ''+'' then (case float_unsigned cs of Inl e \<Rightarrow> Inl (ValueError s) | Inr v \<Rightarrow> Inr v)
          else float_unsigned s)"

section \<open>The two regular expressions of \<^verbatim>\<open>find_potcar\<close>\<close>

text \<open>
  The number group \<^verbatim>\<open>([-+]?\d*\.?\d+)\<close> matched at the head of a string, as the
  backtracking matcher does: the sign if there is one, the longest run of digits, and
  a point only when a digit follows it. The result is the captured text and the rest.
\<close>

definition match_number :: "string \<Rightarrow> (string \<times> string) option" where
  "match_number s =
     (let sg = (case s of [] \<Rightarrow> [] | c # _ \<Rightarrow> if c = CHR ''-'' \<or> c = CHR ''+'' then [c] else []);
          s1 = drop (length sg) s;
          d1 = takeWhile isdigit s1;
          s2 = dropWhile isdigit s1
      in case s2 of
           [] \<Rightarrow> if d1 = [] then None else Some (sg @ d1, s2)
         | c # s3 \<Rightarrow>
             if c = CHR ''.'' \<and> takeWhile isdigit s3 \<noteq> []
             then Some (sg @ d1 @ [c] @ takeWhile isdigit s3, dropWhile isdigit s3)
             else if d1 = [] then None else Some (sg @ d1, s2))"

text \<open>\<^verbatim>\<open>RWIGS\s*=\s*\<close> under \<^verbatim>\<open>re.IGNORECASE\<close>, at the head of a string.\<close>

definition match_label :: "string \<Rightarrow> string option" where
  "match_label s =
     (case s of
        c1 # c2 # c3 # c4 # c5 # r \<Rightarrow>
          if (c1 = CHR ''R'' \<or> c1 = CHR ''r'') \<and> (c2 = CHR ''W'' \<or> c2 = CHR ''w'') \<and>
             (c3 = CHR ''I'' \<or> c3 = CHR ''i'') \<and> (c4 = CHR ''G'' \<or> c4 = CHR ''g'') \<and>
             (c5 = CHR ''S'' \<or> c5 = CHR ''s'')
          then (case dropWhile isspace r of
                  [] \<Rightarrow> None
                | e # r' \<Rightarrow> if e = CHR ''='' then Some (dropWhile isspace r') else None)
          else None
      | _ \<Rightarrow> None)"

text \<open>\<^verbatim>\<open>single_re\<close> at the head of a string: the captured group and the rest.\<close>

definition match_single :: "string \<Rightarrow> (string \<times> string) option" where
  "match_single s = (case match_label s of None \<Rightarrow> None | Some r \<Rightarrow> match_number r)"

text \<open>\<^verbatim>\<open>pair_re\<close> at the head of a string: the two captured groups.\<close>

definition match_pair :: "string \<Rightarrow> (string \<times> string) option" where
  "match_pair s =
     (case match_single s of
        None \<Rightarrow> None
      | Some (g1, r1) \<Rightarrow>
          (case dropWhile isspace r1 of
             [] \<Rightarrow> None
           | c # r2 \<Rightarrow>
               if c = CHR '';'' then
                 (case match_single (dropWhile isspace r2) of
                    None \<Rightarrow> None
                  | Some (g2, r3) \<Rightarrow> Some (g1, g2))
               else None))"

text \<open>\<^verbatim>\<open>pair_re.search(text)\<close>: the leftmost position at which the pattern matches.\<close>

fun pair_search :: "string \<Rightarrow> (string \<times> string) option" where
  "pair_search [] = None"
| "pair_search (c # cs) =
     (case match_pair (c # cs) of Some m \<Rightarrow> Some m | None \<Rightarrow> pair_search cs)"

lemma match_number_split:
  assumes "match_number s = Some (g, r)"
  shows "s = g @ r \<and> g \<noteq> []"
proof -
  define sg where "sg = (case s of [] \<Rightarrow> [] | c # _ \<Rightarrow> if c = CHR ''-'' \<or> c = CHR ''+'' then [c] else [])"
  define s1 where "s1 = drop (length sg) s"
  define d1 where "d1 = takeWhile isdigit s1"
  define s2 where "s2 = dropWhile isdigit s1"
  have s: "s = sg @ s1"
    by (cases s) (simp_all add: sg_def s1_def)
  have s1: "s1 = d1 @ s2"
    by (simp add: d1_def s2_def)
  have m: "(case s2 of
           [] \<Rightarrow> if d1 = [] then None else Some (sg @ d1, s2)
         | c # s3 \<Rightarrow>
             if c = CHR ''.'' \<and> takeWhile isdigit s3 \<noteq> []
             then Some (sg @ d1 @ [c] @ takeWhile isdigit s3, dropWhile isdigit s3)
             else if d1 = [] then None else Some (sg @ d1, s2)) = Some (g, r)"
    using assms unfolding match_number_def Let_def sg_def s1_def d1_def s2_def .
  show ?thesis
  proof (cases s2)
    case Nil
    with m s s1 show ?thesis
      by (auto split: if_splits)
  next
    case (Cons c s3)
    have "s3 = takeWhile isdigit s3 @ dropWhile isdigit s3"
      by simp
    with m s s1 Cons show ?thesis
      by (auto split: if_splits)
  qed
qed

lemma match_label_split:
  assumes "match_label s = Some r"
  shows "\<exists>p. s = p @ r \<and> 6 \<le> length p"
proof -
  from assms obtain c1 c2 c3 c4 c5 t where s: "s = c1 # c2 # c3 # c4 # c5 # t"
    by (auto simp: match_label_def split: list.splits)
  from assms s obtain u where u: "dropWhile isspace t = CHR ''='' # u" and r: "r = dropWhile isspace u"
    by (auto simp: match_label_def split: list.splits if_splits)
  have "t = takeWhile isspace t @ CHR ''='' # u"
    using u takeWhile_dropWhile_id [of isspace t] by simp
  moreover have "u = takeWhile isspace u @ r"
    using r by simp
  ultimately have "s = ([c1, c2, c3, c4, c5] @ takeWhile isspace t @ CHR ''='' # takeWhile isspace u) @ r"
    using s by simp
  then show ?thesis
    by (intro exI [of _ "[c1, c2, c3, c4, c5] @ takeWhile isspace t @ CHR ''='' # takeWhile isspace u"]) simp
qed

lemma match_single_shorter:
  assumes "match_single s = Some (g, r)"
  shows "length r < length s"
proof -
  from assms obtain t where t: "match_label s = Some t" and n: "match_number t = Some (g, r)"
    by (auto simp: match_single_def split: option.splits)
  from match_label_split [OF t] obtain p where p: "s = p @ t" "6 \<le> length p"
    by blast
  from match_number_split [OF n] have "length t = length g + length r"
    by (metis length_append)
  moreover have "length s = length p + length t"
    using p(1) by simp
  ultimately show ?thesis
    using p(2) by linarith
qed

text \<open>
  \<^verbatim>\<open>single_re.findall(text)\<close>: the captured groups of the matches found from left to
  right, each search resuming where the last match ended.
\<close>

function single_findall :: "string \<Rightarrow> string list" where
  "single_findall [] = []"
| "single_findall (c # cs) =
     (case match_single (c # cs) of
        Some (g, r) \<Rightarrow> g # single_findall r
      | None \<Rightarrow> single_findall cs)"
  by pat_completeness auto
termination
  by (relation "measure length") (auto dest: match_single_shorter)

section \<open>The radius of one pseudopotential file\<close>

definition str_path :: "path \<Rightarrow> string" where
  "str_path p = (if p = [] then ''/'' else concat (map (\<lambda>c. CHR ''/'' # c) p))"

text \<open>
  Lines 85 to 92 of \<^verbatim>\<open>find_potcar\<close>: the radius chosen for the text of one file,
  or the \<^verbatim>\<open>ValueError\<close> of line 91.
\<close>

definition chosen_rwigs :: "path \<Rightarrow> string \<Rightarrow> error + pyfloat" where
  "chosen_rwigs potcar_path text =
     (case pair_search text of
        Some (g1, g2) \<Rightarrow>
          (case py_float g1 of
             Inl e \<Rightarrow> Inl e
           | Inr a \<Rightarrow> (case py_float g2 of Inl e \<Rightarrow> Inl e | Inr b \<Rightarrow> Inr (min a b)))
      | None \<Rightarrow>
          (case mapM py_float (single_findall text) of
             Inl e \<Rightarrow> Inl e
           | Inr vals \<Rightarrow>
               (case vals of
                  [] \<Rightarrow> Inl (ValueError (''No RWIGS entry found in '' @ str_path potcar_path))
                | v # vs \<Rightarrow> Inr (fold min vs v))))"

section \<open>The file system and the console\<close>

text \<open>
  The state the program runs in: the directories, the files with their contents, the
  files the operating system refuses to delete, and the lines printed so far. A path
  is the list of its components from the root, and the root \<open>[]\<close> is a directory.
\<close>

record world =
  dirs :: "path set"
  files :: "path \<Rightarrow> string option"
  undeletable :: "path set"
  stdout :: "string list"

type_synonym 'a io = "world \<Rightarrow> (error + 'a) \<times> world"

definition io_return :: "'a \<Rightarrow> 'a io" where
  "io_return x w = (Inr x, w)"

definition io_raise :: "error \<Rightarrow> 'a io" where
  "io_raise e w = (Inl e, w)"

definition io_of :: "error + 'a \<Rightarrow> 'a io" where
  "io_of r w = (r, w)"

definition io_bind :: "'a io \<Rightarrow> ('a \<Rightarrow> 'b io) \<Rightarrow> 'b io" where
  "io_bind m f w = (case m w of (Inl e, w') \<Rightarrow> (Inl e, w') | (Inr x, w') \<Rightarrow> f x w')"

text \<open>\<^verbatim>\<open>for x in xs: body\<close>, and the same loop with the variables it updates.\<close>

fun io_foreach :: "'a list \<Rightarrow> ('a \<Rightarrow> unit io) \<Rightarrow> unit io" where
  "io_foreach [] f = io_return ()"
| "io_foreach (x # xs) f = io_bind (f x) (\<lambda>_. io_foreach xs f)"

fun io_fold :: "('a \<Rightarrow> 's \<Rightarrow> 's io) \<Rightarrow> 'a list \<Rightarrow> 's \<Rightarrow> 's io" where
  "io_fold f [] s = io_return s"
| "io_fold f (x # xs) s = io_bind (f x s) (\<lambda>s'. io_fold f xs s')"

definition is_dir :: "world \<Rightarrow> path \<Rightarrow> bool" where
  "is_dir w p \<longleftrightarrow> p = [] \<or> p \<in> dirs w"

definition py_print :: "string \<Rightarrow> unit io" where
  "py_print s w = (Inr (), w\<lparr>stdout := stdout w @ [s]\<rparr>)"

text \<open>
  \<^verbatim>\<open>os.mkdir\<close> as \<^verbatim>\<open>Path.mkdir(exist_ok=True)\<close> uses it: an existing directory is
  accepted, an existing file and a missing parent are errors.
\<close>

definition mkdir_one :: "path \<Rightarrow> unit io" where
  "mkdir_one p w =
     (if is_dir w p then (Inr (), w)
      else if files w p \<noteq> None then (Inl (OSError (str_path p)), w)
      else if \<not> is_dir w (butlast p) then (Inl (OSError (str_path p)), w)
      else (Inr (), w\<lparr>dirs := insert p (dirs w)\<rparr>))"

text \<open>\<^verbatim>\<open>Path.mkdir(parents=True, exist_ok=True)\<close>: the ancestors first, then the path.\<close>

definition mkdir_parents :: "path \<Rightarrow> unit io" where
  "mkdir_parents p = io_foreach (prefixes p) mkdir_one"

text \<open>
  \<^verbatim>\<open>Path.write_text\<close> (on a system whose line separator is the line feed) and the
  binary write of \<^verbatim>\<open>shutil.copy\<close>.
\<close>

definition write_text :: "path \<Rightarrow> string \<Rightarrow> unit io" where
  "write_text p s w =
     (if is_dir w p then (Inl (OSError (str_path p)), w)
      else if \<not> is_dir w (butlast p) then (Inl (FileNotFoundError (str_path p)), w)
      else (Inr (), w\<lparr>files := (files w)(p \<mapsto> s)\<rparr>))"

text \<open>
  The universal newlines of a file opened in text mode: \<^verbatim>\<open>\r\n\<close> and \<^verbatim>\<open>\r\<close> are
  read as \<^verbatim>\<open>\n\<close>.
\<close>

fun universal_newlines :: "string \<Rightarrow> string" where
  "universal_newlines [] = []"
| "universal_newlines [c] = (if c = CHR 0x0D then [CHR 0x0A] else [c])"
| "universal_newlines (c # d # cs) =
     (if c = CHR 0x0D \<and> d = CHR 0x0A then CHR 0x0A # universal_newlines cs
      else if c = CHR 0x0D then CHR 0x0A # universal_newlines (d # cs)
      else c # universal_newlines (d # cs))"

definition read_text :: "path \<Rightarrow> string io" where
  "read_text p w =
     (case files w p of
        None \<Rightarrow> (Inl (FileNotFoundError (str_path p)), w)
      | Some s \<Rightarrow> (Inr (universal_newlines s), w))"

text \<open>
  \<^verbatim>\<open>shutil.copy(src, dst)\<close>: the bytes of \<open>src\<close> are written to \<open>dst\<close>, or into \<open>dst\<close>
  under the name of \<open>src\<close> when \<open>dst\<close> is a directory.
\<close>

definition copy_file :: "path \<Rightarrow> path \<Rightarrow> unit io" where
  "copy_file src dst w =
     (case files w src of
        None \<Rightarrow> (Inl (FileNotFoundError (str_path src)), w)
      | Some s \<Rightarrow>
          (let target = (if is_dir w dst then dst @ [last src] else dst)
           in if target = src then (Inl (OSError (str_path src)), w) else write_text target s w))"

text \<open>\<^verbatim>\<open>Path.unlink\<close>: fails on a missing file and on one the system refuses to delete.\<close>

definition unlink :: "path \<Rightarrow> unit io" where
  "unlink p w =
     (case files w p of
        None \<Rightarrow> (Inl (FileNotFoundError (str_path p)), w)
      | Some s \<Rightarrow>
          if p \<in> undeletable w then (Inl (OSError (str_path p)), w)
          else (Inr (), w\<lparr>files := (files w)(p := None)\<rparr>))"

text \<open>
  The names of the directories directly under the root, as line 68 computes them; the
  set is given by its membership test.
\<close>

definition iterdir_dirs :: "path \<Rightarrow> (string \<Rightarrow> bool) io" where
  "iterdir_dirs potcar_root w =
     (if is_dir w potcar_root then (Inr (\<lambda>name. potcar_root @ [name] \<in> dirs w), w)
      else (Inl (FileNotFoundError (str_path potcar_root)), w))"

section \<open>\<^verbatim>\<open>find_potcar\<close>\<close>

definition potcar_suffixes :: "string list" where
  "potcar_suffixes = [''_pv'', ''_sv'', '''', ''_s'']"

text \<open>Lines 71 to 80: the first variant whose directory exists.\<close>

definition select_potcar :: "path \<Rightarrow> (string \<Rightarrow> bool) \<Rightarrow> string \<Rightarrow> error + path" where
  "select_potcar potcar_root available_dirs element =
     (case find (\<lambda>sfx. available_dirs (element @ sfx)) potcar_suffixes of
        Some sfx \<Rightarrow> Inr (potcar_root @ [element @ sfx, ''POTCAR''])
      | None \<Rightarrow>
          Inl (FileNotFoundError
                (''No suitable POTCAR found for '' @ element @ '' in '' @ str_path potcar_root)))"

text \<open>The body of the loop of lines 70 to 96, on the three lists the loop builds.\<close>

definition potcar_step ::
  "path \<Rightarrow> (string \<Rightarrow> bool) \<Rightarrow> string \<Rightarrow>
   string list \<times> (string \<times> pyfloat) list \<times> pyfloat list \<Rightarrow>
   (string list \<times> (string \<times> pyfloat) list \<times> pyfloat list) io" where
  "potcar_step potcar_root available_dirs element acc =
     (case acc of (potcar_content, rwigs_values, picked_rwigs) \<Rightarrow>
        io_bind (io_of (select_potcar potcar_root available_dirs element)) (\<lambda>potcar_path.
        io_bind (read_text potcar_path) (\<lambda>text.
        io_bind (io_of (chosen_rwigs potcar_path text)) (\<lambda>chosen.
        io_bind (py_print (element @ '': POTCAR read from '' @ str_path potcar_path)) (\<lambda>_.
        io_return (potcar_content @ [text], AList.update element chosen rwigs_values,
                   picked_rwigs @ [chosen]))))))"

definition find_potcar ::
  "string list \<Rightarrow> path \<Rightarrow> path \<Rightarrow> ((string \<times> pyfloat) list \<times> pyfloat option) io" where
  "find_potcar elements destination potcar_root =
     io_bind (mkdir_parents destination) (\<lambda>_.
     io_bind (iterdir_dirs potcar_root) (\<lambda>available_dirs.
     io_bind (io_fold (potcar_step potcar_root available_dirs) elements ([], [], [])) (\<lambda>acc.
       case acc of (potcar_content, rwigs_values, picked_rwigs) \<Rightarrow>
         io_bind (write_text (destination @ [''POTCAR'']) (concat potcar_content)) (\<lambda>_.
         io_return (rwigs_values,
                    case picked_rwigs of [] \<Rightarrow> None | v # vs \<Rightarrow> Some (fold min vs v))))))"

section \<open>Strings: lines, fields and integers\<close>

text \<open>\<^verbatim>\<open>sep.join(xs)\<close>.\<close>

fun join :: "string \<Rightarrow> string list \<Rightarrow> string" where
  "join sep [] = []"
| "join sep [x] = x"
| "join sep (x # y # ys) = x @ sep @ join sep (y # ys)"

definition startswith :: "string \<Rightarrow> string \<Rightarrow> bool" where
  "startswith s p \<longleftrightarrow> take (length p) s = p"

text \<open>
  The line boundaries of \<^verbatim>\<open>str.splitlines\<close> below code point 256. The carriage return
  is one of them, and with a line feed after it the two end one line together.
\<close>

definition is_boundary :: "char \<Rightarrow> bool" where
  "is_boundary c \<longleftrightarrow>
     c \<in> set [CHR 0x0A, CHR 0x0B, CHR 0x0C, CHR 0x0D, CHR 0x1C, CHR 0x1D, CHR 0x1E, CHR 0x85]"

text \<open>\<^verbatim>\<open>s.splitlines(True)\<close>: the lines of \<open>s\<close>, each with its line ending.\<close>

fun splitlines :: "string \<Rightarrow> string list" where
  "splitlines [] = []"
| "splitlines [c] = [[c]]"
| "splitlines (c # d # cs) =
     (if c = CHR 0x0D \<and> d = CHR 0x0A then [c, d] # splitlines cs
      else if is_boundary c then [c] # splitlines (d # cs)
      else (case splitlines (d # cs) of [] \<Rightarrow> [[c]] | l # ls \<Rightarrow> (c # l) # ls))"

text \<open>\<^verbatim>\<open>s.strip()\<close> and \<^verbatim>\<open>s.split()\<close>.\<close>

definition strip :: "string \<Rightarrow> string" where
  "strip s = rev (dropWhile isspace (rev (dropWhile isspace s)))"

fun split_ws :: "string \<Rightarrow> string list" where
  "split_ws [] = []"
| "split_ws [c] = (if isspace c then [] else [[c]])"
| "split_ws (c # d # cs) =
     (if isspace c then split_ws (d # cs)
      else if isspace d then [c] # split_ws cs
      else (case split_ws (d # cs) of [] \<Rightarrow> [[c]] | t # ts \<Rightarrow> (c # t) # ts))"

text \<open>\<^verbatim>\<open>line.split("=", 1)[1]\<close>: what follows the first equals sign.\<close>

definition after_equals :: "string \<Rightarrow> error + string" where
  "after_equals line =
     (case dropWhile (\<lambda>c. c \<noteq> CHR ''='') line of
        [] \<Rightarrow> Inl (IndexError ''list index out of range'')
      | _ # r \<Rightarrow> Inr r)"

text \<open>
  \<^verbatim>\<open>int(s)\<close> on a token without white space: an optional sign and decimal digits,
  where single underscores may stand between digits.
\<close>

fun int_body_ok :: "string \<Rightarrow> bool" where
  "int_body_ok [] = False"
| "int_body_ok [c] = isdigit c"
| "int_body_ok (c # d # cs) =
     (isdigit c \<and> (if d = CHR ''_'' then int_body_ok cs else int_body_ok (d # cs)))"

definition int_unsigned :: "string \<Rightarrow> string \<Rightarrow> error + int" where
  "int_unsigned s body =
     (if int_body_ok body then Inr (int (nat_of_digits (filter (\<lambda>c. c \<noteq> CHR ''_'') body) 0))
      else Inl (ValueError (''invalid literal for int() with base 10: '' @ s)))"

definition py_int :: "string \<Rightarrow> error + int" where
  "py_int s =
     (case s of
        [] \<Rightarrow> int_unsigned s s
      | c # cs \<Rightarrow>
          if c = CHR ''-'' then (case int_unsigned s cs of Inl e \<Rightarrow> Inl e | Inr n \<Rightarrow> Inr (- n))
          else if c = CHR ''+'' then int_unsigned s cs
          else int_unsigned s s)"

section \<open>Formatting numbers\<close>

text \<open>\<^verbatim>\<open>round(x)\<close>: to the nearest integer, a tie to the even one.\<close>

definition py_round :: "pyfloat \<Rightarrow> int" where
  "py_round x =
     (let f = \<lfloor>x\<rfloor>; r = x - of_int f
      in if r < 1 / 2 then f else if 1 / 2 < r then f + 1 else if even f then f else f + 1)"

text \<open>Digits padded with zeros on the left to a width.\<close>

definition zero_pad :: "nat \<Rightarrow> string \<Rightarrow> string" where
  "zero_pad n s = replicate (n - length s) CHR ''0'' @ s"

text \<open>\<^verbatim>\<open>f"{x:.6f}"\<close>: six decimals, correctly rounded.\<close>

definition fmt_6f :: "pyfloat \<Rightarrow> string" where
  "fmt_6f x =
     (let n = nat (py_round (\<bar>x\<bar> * 1000000))
      in (if x < 0 then ''-'' else '''') @ str_nat (n div 1000000) @ ''.'' @
         zero_pad 6 (str_nat (n mod 1000000)))"

text \<open>
  The six significant digits of a positive number: the digits as a natural number \<open>d\<close>
  with \<open>100000 \<le> d < 1000000\<close> and the decimal exponent \<open>e\<close> of the first of them, so that
  the number, correctly rounded, is \<open>d * 10 ^ (e - 5)\<close>.
\<close>

definition decimal_exponent :: "pyfloat \<Rightarrow> int" where
  "decimal_exponent a =
     (let (n, m) = quotient_of a;
          k = int (length (str_nat (nat n))) - int (length (str_nat (nat m)))
      in if a < 10 powi k then k - 1 else k)"

definition sig6 :: "pyfloat \<Rightarrow> nat \<times> int" where
  "sig6 a =
     (let e = decimal_exponent a;
          d = nat (py_round (a / 10 powi (e - 5)))
      in if d = 1000000 then (100000, e + 1) else (d, e))"

definition rstrip_zeros :: "string \<Rightarrow> string" where
  "rstrip_zeros s = rev (dropWhile (\<lambda>c. c = CHR ''0'') (rev s))"

definition with_point :: "string \<Rightarrow> string \<Rightarrow> string" where
  "with_point ip fp = (if fp = [] then ip else ip @ ''.'' @ fp)"

text \<open>
  \<^verbatim>\<open>f"{x:.6g}"\<close>: six significant digits, in fixed notation when the exponent is at
  least \<open>-4\<close> and below \<open>6\<close> and in scientific notation otherwise, without trailing zeros.
\<close>

definition format_6g :: "pyfloat \<Rightarrow> string" where
  "format_6g x =
     (if x = 0 then ''0''
      else
        (let (d, e) = sig6 \<bar>x\<bar>;
             ds = str_nat d;
             sg = (if x < 0 then ''-'' else '''')
         in if - 4 \<le> e \<and> e < 6 then
              (if 0 \<le> e
               then sg @ with_point (take (nat e + 1) ds) (rstrip_zeros (drop (nat e + 1) ds))
               else sg @ with_point ''0'' (rstrip_zeros (replicate (nat (- e - 1)) CHR ''0'' @ ds)))
            else
              sg @ with_point (take 1 ds) (rstrip_zeros (drop 1 ds)) @ ''e'' @
              (if e < 0 then ''-'' else ''+'') @ zero_pad 2 (str_nat (nat \<bar>e\<bar>))))"

text \<open>\<^verbatim>\<open>_format_pstress_kbar\<close>, lines 18 to 26.\<close>

definition format_pstress_kbar :: "pyfloat \<Rightarrow> error + string" where
  "format_pstress_kbar pressure_gpa =
     (let pstress_kbar = pressure_gpa * 10
      in if pstress_kbar < 0 then Inl (ValueError ''Pressure must be non-negative.'')
         else if \<bar>pstress_kbar - of_int (py_round pstress_kbar)\<bar> < 1 / 10 ^ 9
         then Inr (str_int (py_round pstress_kbar))
         else Inr (format_6g pstress_kbar))"

section \<open>Binary64 arithmetic\<close>

text \<open>
  A double: a finite value (\<open>Finite 0\<close> is the positive zero), the negative zero, the two
  infinities and the nan.
\<close>

datatype pydouble = Finite rat | NegZero | PosInf | NegInf | NaN

text \<open>The power of two of an integer exponent, by squaring.\<close>

function pow2 :: "int \<Rightarrow> rat" where
  "pow2 k =
     (if k < 0 then 1 / pow2 (- k)
      else if k = 0 then 1
      else (let h = pow2 (k div 2) in if even k then h * h else 2 * h * h))"
  by pat_completeness auto
termination
  by (relation "measure (\<lambda>k. if k < 0 then nat (2 - 2 * k) else nat (2 * k))") auto

declare pow2.simps [simp del]

text \<open>The binary exponent of a positive number \<open>a\<close>: the \<open>k\<close> with \<open>2 ^ k \<le> a < 2 ^ (k + 1)\<close>.\<close>

definition ilog2 :: "rat \<Rightarrow> int" where
  "ilog2 a = (if 1 \<le> a then bitlen \<lfloor>a\<rfloor> - 1 else - bitlen (\<lceil>1 / a\<rceil> - 1))"

text \<open>
  The double nearest to a rational number, a tie to the even significand: the
  significand has 53 bits at the exponent of the number, the exponents below \<open>- 1022\<close>
  share the spacing \<open>2 ^ - 1074\<close> of the subnormal numbers, and a result of binary
  exponent 1024 or more, that is, of \<open>2 ^ 1024\<close> or more, is an infinity.
\<close>

definition round_double :: "rat \<Rightarrow> pydouble" where
  "round_double x =
     (if x = 0 then Finite 0
      else
        (let a = \<bar>x\<bar>;
             e = max (ilog2 a) (- 1022);
             q = pow2 (e - 52);
             v = of_int (py_round (a / q)) * q
         in if v = 0 then (if x < 0 then NegZero else Finite 0)
            else if 1024 \<le> ilog2 v then (if x < 0 then NegInf else PosInf)
            else Finite (if x < 0 then - v else v)))"

text \<open>\<^verbatim>\<open>x + y\<close> on floats.\<close>

fun fadd :: "pydouble \<Rightarrow> pydouble \<Rightarrow> pydouble" where
  "fadd NaN y = NaN"
| "fadd x NaN = NaN"
| "fadd PosInf NegInf = NaN"
| "fadd NegInf PosInf = NaN"
| "fadd PosInf y = PosInf"
| "fadd NegInf y = NegInf"
| "fadd x PosInf = PosInf"
| "fadd x NegInf = NegInf"
| "fadd NegZero y = y"
| "fadd x NegZero = x"
| "fadd (Finite a) (Finite b) = round_double (a + b)"

text \<open>\<^verbatim>\<open>x * y\<close> on floats.\<close>

fun sign_bit :: "pydouble \<Rightarrow> bool" where
  "sign_bit (Finite a) = (a < 0)"
| "sign_bit NegZero = True"
| "sign_bit NegInf = True"
| "sign_bit PosInf = False"
| "sign_bit NaN = False"

fun value_of :: "pydouble \<Rightarrow> rat" where
  "value_of (Finite a) = a"
| "value_of x = 0"

definition is_inf :: "pydouble \<Rightarrow> bool" where
  "is_inf x \<longleftrightarrow> x = PosInf \<or> x = NegInf"

definition is_zero :: "pydouble \<Rightarrow> bool" where
  "is_zero x \<longleftrightarrow> x = Finite 0 \<or> x = NegZero"

definition fmul :: "pydouble \<Rightarrow> pydouble \<Rightarrow> pydouble" where
  "fmul x y =
     (if x = NaN \<or> y = NaN then NaN
      else if is_inf x \<or> is_inf y then
        (if is_zero x \<or> is_zero y then NaN
         else if sign_bit x \<noteq> sign_bit y then NegInf else PosInf)
      else
        (let p = value_of x * value_of y
         in if p = 0 then (if sign_bit x \<noteq> sign_bit y then NegZero else Finite 0)
            else round_double p))"

text \<open>\<^verbatim>\<open>x == y\<close> on floats: the nan equals nothing, the two zeros are equal.\<close>

definition feq :: "pydouble \<Rightarrow> pydouble \<Rightarrow> bool" where
  "feq x y \<longleftrightarrow> x \<noteq> NaN \<and> y \<noteq> NaN \<and> (x = y \<or> (is_zero x \<and> is_zero y))"

text \<open>\<^verbatim>\<open>f"{x:.6f}"\<close> on a float.\<close>

fun fmt_6f_double :: "pydouble \<Rightarrow> string" where
  "fmt_6f_double (Finite a) = fmt_6f a"
| "fmt_6f_double NegZero = ''-0.000000''"
| "fmt_6f_double PosInf = ''inf''"
| "fmt_6f_double NegInf = ''-inf''"
| "fmt_6f_double NaN = ''nan''"

section \<open>The distance-of-ion matrix\<close>

text \<open>
  \<^verbatim>\<open>calculate_distance_of_ion\<close>, lines 230 to 240: the keys of the dictionary are
  listed once, and every entry is computed from two look-ups; the literal \<^verbatim>\<open>0.6\<close> is
  the double nearest to \<open>6 / 10\<close>.
\<close>

definition distance_entry :: "(string \<times> pydouble) list \<Rightarrow> string \<Rightarrow> string \<Rightarrow> error + pydouble" where
  "distance_entry rwigs_values element_i element_j =
     (case dict_get rwigs_values element_i of
        Inl e \<Rightarrow> Inl e
      | Inr ri \<Rightarrow>
          (case dict_get rwigs_values element_j of
             Inl e \<Rightarrow> Inl e
           | Inr rj \<Rightarrow> Inr (fmul (fadd ri rj) (round_double (6 / 10)))))"

definition calculate_distance_of_ion :: "(string \<times> pydouble) list \<Rightarrow> error + pydouble list list" where
  "calculate_distance_of_ion rwigs_values =
     (let elements = map fst rwigs_values
      in mapM (\<lambda>element_i. mapM (\<lambda>element_j. distance_entry rwigs_values element_i element_j) elements)
           elements)"

text \<open>
  The radii of \<^verbatim>\<open>find_potcar\<close> as the doubles that \<^verbatim>\<open>float()\<close> gave them: each value of
  the dictionary rounded, the keys and their order kept.
\<close>

definition doubles_of :: "(string \<times> pyfloat) list \<Rightarrow> (string \<times> pydouble) list" where
  "doubles_of rwigs_values = map (\<lambda>(element, r). (element, round_double r)) rwigs_values"

section \<open>The fixed texts\<close>

text \<open>
  The templates of the source, line by line. The four non-breaking hyphens of the
  comments of \<^verbatim>\<open>calypso_fullnode.sh\<close> are above code point 255 and stand here as
  their three bytes in UTF-8; no function of the program inspects them.
\<close>

definition incar_1_content :: "string \<Rightarrow> string" where
  "incar_1_content pstress_kbar_str =
     join [CHR 0x0A]
      [''SYSTEM = opt'',
       ''PREC = Accurate'',
       ''ENCUT = 300'',
       ''KSPACING = 0.5'',
       ''EDIFF = 1e-4'',
       ''EDIFFG = -0.1'',
       ''IBRION = 2'',
       ''ISIF = 3'',
       ''NSW = 60'',
       ''ISTART = 0'',
       ''ICHARG = 2'',
       ''ISMEAR = 1'',
       ''SIGMA = 0.05'',
       ''LREAL = Auto'',
       ''LCHARG = .F.'',
       ''LWAVE = .F.'',
       ''POTIM = 0.02'',
       ''PSTRESS = '' @ pstress_kbar_str]"

definition incar_2_content :: "string \<Rightarrow> string" where
  "incar_2_content pstress_kbar_str =
     join [CHR 0x0A]
      [''SYSTEM = opt'',
       ''PREC = Accurate'',
       ''ENCUT = 400'',
       ''KSPACING = 0.25'',
       ''EDIFF = 5e-5'',
       ''EDIFFG = -0.03'',
       ''IBRION = 2'',
       ''ISIF = 3'',
       ''NSW = 60'',
       ''ISTART = 0'',
       ''ICHARG = 2'',
       ''ISMEAR = 1'',
       ''SIGMA = 0.05'',
       ''LREAL = Auto'',
       ''LCHARG = .F.'',
       ''LWAVE = .F.'',
       ''POTIM = 0.02'',
       ''PSTRESS = '' @ pstress_kbar_str]"

definition calypso_fullnode_content :: "string \<Rightarrow> string" where
  "calypso_fullnode_content calypso_exec =
     join [CHR 0x0A]
      [''#!/bin/bash'',
       ''#SBATCH --job-name=caly48'',
       ''#SBATCH --exclude=node[1-8],gpu[1-2]'',
       ''#SBATCH --partition=chem352'',
       ''#SBATCH --nodes=1'',
       ''#SBATCH --ntasks-per-node=48          # whole node (48 cores)'',
       ''#SBATCH --cpus-per-task=1             # 1 CPU per MPI rank'',
       ''#SBATCH --exclusive                   # no other *jobs* on this node'',
       ''#SBATCH --output=%x_%j.out'',
       ''#SBATCH --error=%x_%j.err'',
       '''',
       ''# '' @ [CHR 0xE2, CHR 0x80, CHR 0x91] @ [CHR 0xE2, CHR 0x80, CHR 0x91] @ [CHR 0xE2, CHR 0x80, CHR 0x91] @ '' safety limits -----------------------------------------------------------'',
       ''ulimit -s unlimited'',
       ''ulimit -c unlimited'',
       ''ulimit -d unlimited'',
       '''',
       ''# (optional) record which host(s) we received'',
       ''scontrol show hostname '' @ [CHR 0x22] @ ''$SLURM_NODELIST'' @ [CHR 0x22] @ '' > machinefile'',
       '''',
       ''# '' @ [CHR 0xE2, CHR 0x80, CHR 0x91] @ [CHR 0xE2, CHR 0x80, CHR 0x91] @ [CHR 0xE2, CHR 0x80, CHR 0x91] @ '' launch CALYPSO driver (single rank, I/O'' @ [CHR 0xE2, CHR 0x80, CHR 0x91] @ ''bound) --------------------------'',
       calypso_exec @ ''   > caly.log 2>&1'']"

definition calypso_content :: "string \<Rightarrow> string" where
  "calypso_content calypso_exec =
     join [CHR 0x0A]
      [''#!/bin/bash'',
       ''#SBATCH --job-name=calypso'',
       ''#SBATCH --exclude=node[1-8],gpu[1-2]'',
       ''#SBATCH --partition=week-long'',
       ''#SBATCH -N 1'',
       ''#SBATCH -n 24'',
       ''#SBATCH --mail-type=end'',
       ''#SBATCH --output=%j.out'',
       ''#SBATCH --error=%j.err'',
       '''',
       ''ulimit -s unlimited'',
       ''#ulimit -m unlimited'',
       ''ulimit -c unlimited'',
       ''ulimit -d unlimited'',
       '''',
       ''#sleep 60'',
       ''##for CALYPSO6.0'',
       calypso_exec]"

definition submit_sh_content :: "string \<Rightarrow> string" where
  "submit_sh_content vasp_exec =
     join [CHR 0x0A]
      [''#!/bin/bash'',
       ''export OMP_NUM_THREADS=1'',
       ''export I_MPI_PMI_LIBRARY=/usr/lib64/libpmi2.so   # drop if you switch to PMIx'',
       '''',
       ''srun --exact --mpi=pmi2 --ntasks=16 --cpus-per-task=1 --mem=80G --cpu-bind=cores '' @ [CHR 0x5C],
       ''        '' @ vasp_exec @ '' > vasp.out  2> vasp.err'']"

definition two_d_template :: "string \<Rightarrow> string \<Rightarrow> string \<Rightarrow> string \<Rightarrow> string \<Rightarrow> string" where
  "two_d_template num_layers adjusted_area delta_z layer_type_str latom_line =
     join [CHR 0x0A]
      ['''',
       ''######### The Parameters For 2D Structure Prediction #############'',
       ''# If True, a 2D structure prediction is performed.'',
       ''2D = True'',
       ''# The number of layers'',
       ''MultiLayer = '' @ num_layers,
       ''# The Area of 2D system'',
       ''Area = '' @ adjusted_area,
       ''# The distortion value along the C axis'',
       ''DeltaZ = '' @ delta_z,
       ''# The gap between two layers'',
       ''LayerGap=5'',
       ''# The vacuum gap between the top surface of the slab and the top lattice, and between the bottom surface of the slab and the bottom lattice.'',
       ''VacuumGap=20'',
       ''# The number atoms for each layer'',
       ''@LayerType'',
       layer_type_str,
       ''@End'',
       ''# Minimal distance between atoms of each chemical species. Unit is in angstrom.'',
       latom_line,
       ''########################END 2D Parameters #########################'',
       '''']"

definition input_template :: "string \<Rightarrow> string \<Rightarrow> string \<Rightarrow> string \<Rightarrow> string \<Rightarrow> string \<Rightarrow> string" where
  "input_template system_name number_of_species name_of_atoms number_of_atoms distance_of_ion_str two_d_parameters =
     join [CHR 0x0A]
      [''################################ The Basic Parameters of CALYPSO ################################'',
       ''# A string of one or several words contain a descriptCALYPSOive name of the system (max. 40 characters).'',
       ''SystemName = '' @ system_name,
       ''# Number of different atomic species in the simulation.'',
       ''NumberOfSpecies = '' @ number_of_species,
       ''# Element symbols of the different chemical species.'',
       ''NameOfAtoms = '' @ name_of_atoms,
       ''# Number of atoms for each chemical species in one formula unit.'',
       ''NumberOfAtoms = '' @ number_of_atoms,
       ''# The range of formula unit per cell in your simulation.'',
       ''NumberOfFormula = 1 1'',
       ''# The volume per formula unit. Unit is in angstrom^3.'',
       ''Volume= 0'',
       ''# Minimal distance between atoms of each chemical species. Unit is in angstrom.'',
       ''@DistanceOfIon'',
       distance_of_ion_str,
       ''@End'',
       ''# It determines which algorithm should be adopted in the simulation.'',
       ''Ialgo = 2'',
       ''# Ialgo = 1 for Global PSO'',
       ''# Ialgo = 2 for Local PSO (default value)'',
       ''# The proportion of the structures generated by PSO.'',
       ''PsoRatio = 0.6'',
       ''# The popu2ation size. Normally, it has a larger number for larger systems.'',
       ''PopSize = 40'',
       ''# It determines which local optimization method should be interfaced in the simulation.'',
       ''ICode = 1'',
       ''# ICode= 1 interfaced with VASP'',
       ''# ICode= 2 interfaced with SIESTA'',
       ''# ICode= 3 interfaced with GULP'',
       ''# The number of lbest for local PSO'',
       ''NumberOfLbest = 4'',
       ''# The Number of local optimization for each structure.'',
       ''NumberOfLocalOptim = 2'',
       ''# The command to perform local optimiztion calculation (e.g., VASP, SIESTA) on your computer.'',
       ''Command = sh submit.sh'',
       ''# The Max step for iteration'',
       ''MaxStep = 50'',
       ''# If True, a previous calculation will be continued.'',
       ''PickUp = F'',
       ''# At which step will the previous calculation be picked up.'',
       ''PickStep ='',
       ''MaxTime = 3600'',
       ''# If True, the local optimizations performed by parallel'',
       ''Parallel = T'',
       ''# The number node for parallel'',
       ''NumberOfParallel= 3'',
       two_d_parameters,
       '''']"

section \<open>\<^verbatim>\<open>create_incar\<close>, \<^verbatim>\<open>create_simple_file\<close> and \<^verbatim>\<open>create_input_dat\<close>\<close>

definition create_incar :: "string \<Rightarrow> path \<Rightarrow> string \<Rightarrow> unit io" where
  "create_incar content directory filename = write_text (directory @ [filename]) content"

definition create_simple_file :: "string \<Rightarrow> string \<Rightarrow> path \<Rightarrow> unit io" where
  "create_simple_file filename content directory = write_text (directory @ [filename]) content"

text \<open>Lines 136 to 145: the fields computed from the arguments.\<close>

definition system_name_of :: "string list \<Rightarrow> int list \<Rightarrow> string" where
  "system_name_of els counts = concat (map (\<lambda>(el, count). el @ str_int count) (zip els counts))"

definition number_of_atoms_of :: "int list \<Rightarrow> string" where
  "number_of_atoms_of counts = join '' '' (map str_int counts)"

definition distance_of_ion_str_of :: "pydouble list list \<Rightarrow> string" where
  "distance_of_ion_str_of matrix =
     join [CHR 0x0A] (map (\<lambda>row. join '' '' (map fmt_6f_double row)) matrix)"

definition layer_type_str_of :: "int list list option \<Rightarrow> string" where
  "layer_type_str_of layer_type_matrix =
     (case layer_type_matrix of
        None \<Rightarrow> ''''
      | Some layers \<Rightarrow>
          if layers = [] then ''''
          else join [CHR 0x0A] (map (\<lambda>layer. join '' '' (map str_int layer)) layers))"

text \<open>
  Lines 147 to 175: the block of the 2D parameters, or the \<^verbatim>\<open>ValueError\<close> of line 150.
  \<open>repr_float\<close> is \<^verbatim>\<open>repr\<close> on floats, the shortest decimal that reads back as the same
  double; it belongs to the interpreter and is a parameter here.
\<close>

definition two_d_parameters_of ::
  "(pyfloat \<Rightarrow> string) \<Rightarrow> pyfloat option \<Rightarrow> bool \<Rightarrow> int \<Rightarrow> bool \<Rightarrow> pyfloat option \<Rightarrow>
   int list list option \<Rightarrow> int \<Rightarrow> error + string" where
  "two_d_parameters_of repr_float min_latom_dis two_d layers relax base_area layer_type_matrix
     formula_value =
     (if two_d then
        (case base_area of
           None \<Rightarrow> Inl (ValueError ''base_area must be provided for 2D calculations'')
         | Some area \<Rightarrow>
             (let adjusted_area = area * of_int formula_value;
                  delta_z = (if relax then 1 / 10 else 0);
                  latom_line =
                    (case min_latom_dis of
                       None \<Rightarrow> ''''
                     | Some r \<Rightarrow> ''LAtom_Dis = '' @ repr_float r)
              in Inr (two_d_template (str_int layers) (repr_float adjusted_area)
                       (repr_float delta_z) (layer_type_str_of layer_type_matrix) latom_line)))
      else Inr '''')"

definition create_input_dat ::
  "(pyfloat \<Rightarrow> string) \<Rightarrow> path \<Rightarrow> string list \<Rightarrow> int list \<Rightarrow> pydouble list list \<Rightarrow>
   pyfloat option \<Rightarrow> bool \<Rightarrow> int \<Rightarrow> bool \<Rightarrow> pyfloat option \<Rightarrow> int list list option \<Rightarrow>
   int \<Rightarrow> unit io" where
  "create_input_dat repr_float directory els counts distance_of_ion_matrix min_latom_dis
     two_d layers relax base_area layer_type_matrix formula_value =
     io_bind (mkdir_parents directory) (\<lambda>_.
     io_bind (io_of (two_d_parameters_of repr_float min_latom_dis two_d layers relax base_area
                       layer_type_matrix formula_value)) (\<lambda>two_d_parameters.
     write_text (directory @ [''input.dat''])
       (input_template (system_name_of els counts) (str_int (int (length els)))
          (join '' '' els) (number_of_atoms_of counts)
          (distance_of_ion_str_of distance_of_ion_matrix) two_d_parameters)))"

section \<open>\<^verbatim>\<open>adjust_input_dat\<close>\<close>

text \<open>The body of the loop of lines 250 to 259, on one line of the file.\<close>

definition adjust_line :: "int \<Rightarrow> string \<Rightarrow> error + string" where
  "adjust_line multiplier line =
     (if startswith line ''SystemName = '' then
        (case after_equals line of
           Inl e \<Rightarrow> Inl e
         | Inr v \<Rightarrow> Inr (''SystemName = '' @ strip v @ str_int multiplier @ [CHR 0x0A]))
      else if startswith line ''NumberOfAtoms = '' then
        (case after_equals line of
           Inl e \<Rightarrow> Inl e
         | Inr v \<Rightarrow>
             (case mapM py_int (split_ws (strip v)) of
                Inl e \<Rightarrow> Inl e
              | Inr atoms \<Rightarrow>
                  Inr (''NumberOfAtoms = '' @
                       join '' '' (map (\<lambda>atom. str_int (atom * multiplier)) atoms) @ [CHR 0x0A])))
      else Inr line)"

definition adjust_input_dat :: "path \<Rightarrow> int \<Rightarrow> unit io" where
  "adjust_input_dat file_path multiplier =
     io_bind (read_text file_path) (\<lambda>text.
     io_bind (io_of (mapM (adjust_line multiplier) (splitlines text))) (\<lambda>new_content.
     write_text file_path (concat new_content)))"

section \<open>\<^verbatim>\<open>setup_calypso\<close>\<close>

record setup_config =
  elements :: "string list"
  atom_counts :: "int list"
  formula_multipliers :: "int list"
  pressure_gpa :: pyfloat
  destination :: path
  potcar_root :: path
  calypso_executable :: string
  vasp_executable :: string
  is_2d :: bool
  num_layers :: int
  relax_z :: bool
  layer_type_matrix :: "int list list option"

text \<open>\<^verbatim>\<open>math.pi\<close>: the double nearest to the number.\<close>

definition math_pi :: pyfloat where
  "math_pi = 884279719003555 / 281474976710656"

text \<open>\<^verbatim>\<open>xs.index(x)\<close>.\<close>

fun list_index :: "'a list \<Rightarrow> 'a \<Rightarrow> nat option" where
  "list_index [] x = None"
| "list_index (y # ys) x = (if y = x then Some 0 else map_option Suc (list_index ys x))"

text \<open>
  \<^verbatim>\<open>max(d, key=d.get)\<close>: the first key, in the order of the dictionary, whose value no
  other value exceeds.
\<close>

definition max_key :: "(string \<times> pyfloat) list \<Rightarrow> error + string" where
  "max_key d =
     (case d of
        [] \<Rightarrow> Inl (ValueError ''max() arg is an empty sequence'')
      | kv # rest \<Rightarrow> Inr (fst (fold (\<lambda>c best. if snd best < snd c then c else best) rest kv)))"

text \<open>Lines 378 to 381.\<close>

definition compute_base_area :: "(string \<times> pyfloat) list \<Rightarrow> string list \<Rightarrow> int list \<Rightarrow> error + pyfloat" where
  "compute_base_area rwigs_values els counts =
     (case max_key rwigs_values of
        Inl e \<Rightarrow> Inl e
      | Inr element_with_largest_rwigs \<Rightarrow>
          (case dict_get rwigs_values element_with_largest_rwigs of
             Inl e \<Rightarrow> Inl e
           | Inr largest_rwigs_value \<Rightarrow>
               (case list_index els element_with_largest_rwigs of
                  None \<Rightarrow> Inl (ValueError (element_with_largest_rwigs @ '' is not in list''))
                | Some i \<Rightarrow>
                    if i < length counts
                    then Inr (of_int (counts ! i) * math_pi * largest_rwigs_value\<^sup>2)
                    else Inl (IndexError ''list index out of range''))))"

definition files_to_copy :: "string list" where
  "files_to_copy = [''INCAR_1'', ''INCAR_2'', ''POTCAR'', ''calypso_fullnode.sh'', ''calypso.sh'', ''submit.sh'']"

text \<open>The body of the loop of lines 394 to 424.\<close>

definition formula_step ::
  "(pyfloat \<Rightarrow> string) \<Rightarrow> setup_config \<Rightarrow> pydouble list list \<Rightarrow> pyfloat option \<Rightarrow>
   pyfloat option \<Rightarrow> int \<Rightarrow> path list \<Rightarrow> path list io" where
  "formula_step repr_float config distance_of_ion_matrix min_latom_dis base_area formula_value
     created_directories =
     (let new_dir_path = destination config @ [str_int formula_value];
          adjusted_atom_counts = map (\<lambda>count. count * formula_value) (atom_counts config);
          adjusted_layer_type_matrix =
            (case layer_type_matrix config of
               None \<Rightarrow> None
             | Some layers \<Rightarrow>
                 if is_2d config \<and> layers \<noteq> []
                 then Some (map (\<lambda>layer. map (\<lambda>count. count * formula_value) layer) layers)
                 else None)
      in io_bind (mkdir_parents new_dir_path) (\<lambda>_.
         io_bind (create_input_dat repr_float new_dir_path (elements config) adjusted_atom_counts
                    distance_of_ion_matrix min_latom_dis (is_2d config) (num_layers config)
                    (relax_z config) base_area adjusted_layer_type_matrix formula_value) (\<lambda>_.
         io_bind (io_foreach files_to_copy (\<lambda>file_name.
                    copy_file (destination config @ [file_name]) (new_dir_path @ [file_name]))) (\<lambda>_.
         io_bind (py_print (''Set up directory '' @ str_path new_dir_path)) (\<lambda>_.
         io_return (created_directories @ [new_dir_path]))))))"

text \<open>\<^verbatim>\<open>str(exc)\<close>.\<close>

fun str_exc :: "error \<Rightarrow> string" where
  "str_exc (FileNotFoundError m) = m"
| "str_exc (ValueError m) = m"
| "str_exc (KeyError m) = m"
| "str_exc (IndexError m) = m"
| "str_exc (OSError m) = m"

text \<open>The body of the loop of lines 426 to 430: the exception is caught and printed.\<close>

definition unlink_logged :: "path \<Rightarrow> string \<Rightarrow> unit io" where
  "unlink_logged dest file_name w =
     (case unlink (dest @ [file_name]) w of
        (Inl exc, w') \<Rightarrow>
          py_print (''Error occurred while deleting '' @ str_path (dest @ [file_name]) @ '': '' @
                    str_exc exc) w'
      | (Inr u, w') \<Rightarrow> (Inr (), w'))"

definition setup_calypso :: "(pyfloat \<Rightarrow> string) \<Rightarrow> setup_config \<Rightarrow> path list io" where
  "setup_calypso repr_float config =
     io_bind (mkdir_parents (destination config)) (\<lambda>_.
     io_bind (find_potcar (elements config) (destination config) (potcar_root config)) (\<lambda>found.
       case found of (rwigs_values, min_latom_dis) \<Rightarrow>
     io_bind (io_of (format_pstress_kbar (pressure_gpa config))) (\<lambda>pstress_kbar_str.
     io_bind (create_incar (incar_1_content pstress_kbar_str) (destination config) ''INCAR_1'') (\<lambda>_.
     io_bind (create_incar (incar_2_content pstress_kbar_str) (destination config) ''INCAR_2'') (\<lambda>_.
     io_bind (create_simple_file ''calypso_fullnode.sh''
                (calypso_fullnode_content (calypso_executable config)) (destination config)) (\<lambda>_.
     io_bind (create_simple_file ''calypso.sh''
                (calypso_content (calypso_executable config)) (destination config)) (\<lambda>_.
     io_bind (create_simple_file ''submit.sh''
                (submit_sh_content (vasp_executable config)) (destination config)) (\<lambda>_.
     io_bind (io_of (calculate_distance_of_ion (doubles_of rwigs_values))) (\<lambda>distance_of_ion_matrix.
     io_bind (io_of (if is_2d config
                     then map_sum id Some
                            (compute_base_area rwigs_values (elements config) (atom_counts config))
                     else Inr None)) (\<lambda>base_area.
     io_bind (io_fold (formula_step repr_float config distance_of_ion_matrix min_latom_dis base_area)
                (formula_multipliers config) []) (\<lambda>created_directories.
     io_bind (io_foreach files_to_copy (unlink_logged (destination config))) (\<lambda>_.
     io_return created_directories))))))))))))"

section \<open>Notions used to state the properties\<close>

text \<open>The entry of the matrix for two keys of a dictionary.\<close>

definition radius_sum :: "(string \<times> pydouble) list \<Rightarrow> string \<Rightarrow> string \<Rightarrow> pydouble" where
  "radius_sum d ki kj = fmul (fadd (the (map_of d ki)) (the (map_of d kj))) (round_double (6 / 10))"

text \<open>
  A float that is a double: a finite value that the rounding leaves alone, a zero, an
  infinity or the nan. The sum of a float with itself overflows when the float is finite
  and at least \<open>2 ^ 1023\<close> in absolute value.
\<close>

definition is_double :: "pydouble \<Rightarrow> bool" where
  "is_double x \<longleftrightarrow> (case x of Finite r \<Rightarrow> round_double r = Finite r | _ \<Rightarrow> True)"

definition twice_overflows :: "pydouble \<Rightarrow> bool" where
  "twice_overflows x \<longleftrightarrow> (case x of Finite r \<Rightarrow> \<not> \<bar>r\<bar> < 2 powi 1023 | _ \<Rightarrow> False)"

text \<open>The letter that begins the label of a radius.\<close>

definition is_r :: "char \<Rightarrow> bool" where
  "is_r c \<longleftrightarrow> c = CHR ''R'' \<or> c = CHR ''r''"

text \<open>
  The values of all single occurrences of a radius in a text: the numbers captured by
  \<^verbatim>\<open>single_re\<close> at any position.
\<close>

definition rwigs_occurrences :: "string \<Rightarrow> pyfloat set" where
  "rwigs_occurrences text = {v. \<exists>i g r. match_single (drop i text) = Some (g, r) \<and> py_float g = Inr v}"

text \<open>
  A computation keeps a relation when the relation holds between the world it starts
  in and the world it ends in, whether it returns or raises.
\<close>

definition keeps :: "(world \<Rightarrow> world \<Rightarrow> bool) \<Rightarrow> 'a io \<Rightarrow> bool" where
  "keeps R m \<longleftrightarrow> (\<forall>w. R w (snd (m w)))"

text \<open>No file is written or deleted; and, more, no directory is created either.\<close>

definition same_files :: "world \<Rightarrow> world \<Rightarrow> bool" where
  "same_files w w' \<longleftrightarrow> files w' = files w \<and> undeletable w' = undeletable w"

definition same_tree :: "world \<Rightarrow> world \<Rightarrow> bool" where
  "same_tree w w' \<longleftrightarrow> files w' = files w \<and> dirs w' = dirs w \<and> undeletable w' = undeletable w"

text \<open>The elements of a list without repetition, each at its first occurrence.\<close>

fun first_occurrences :: "'a list \<Rightarrow> 'a list" where
  "first_occurrences [] = []"
| "first_occurrences (x # xs) = x # filter (\<lambda>y. y \<noteq> x) (first_occurrences xs)"

text \<open>
  A small world for the examples: a pseudopotential root with the variants \<open>Fe_pv\<close>,
  \<open>Fe\<close> and \<open>O\<close>, and nothing at the destination.
\<close>

definition example_world :: world where
  "example_world =
     \<lparr>dirs = {[''pot''], [''pot'', ''Fe_pv''], [''pot'', ''Fe''], [''pot'', ''O'']},
      files = [[''pot'', ''Fe_pv'', ''POTCAR''] \<mapsto> ''Fe POTCAR\<newline>RWIGS = 1.20; RWIGS = 1.10\<newline>'',
               [''pot'', ''Fe'', ''POTCAR''] \<mapsto> ''Fe POTCAR\<newline>RWIGS = 1.30\<newline>'',
               [''pot'', ''O'', ''POTCAR''] \<mapsto> ''O POTCAR\<newline>RWIGS = 0.80\<newline>''],
      undeletable = {}, stdout = []\<rparr>"

text \<open>
  An element resolves in a world: one of its variants is a directory under the root,
  the file of the first such variant can be read, and a radius is found in it.
\<close>

definition resolves :: "world \<Rightarrow> path \<Rightarrow> string \<Rightarrow> bool" where
  "resolves w proot el \<longleftrightarrow>
     (\<exists>pth raw r. select_potcar proot (\<lambda>name. proot @ [name] \<in> dirs w) el = Inr pth \<and>
        files w pth = Some raw \<and> chosen_rwigs pth (universal_newlines raw) = Inr r)"

text \<open>A configuration for the examples, and a stand-in for \<^verbatim>\<open>repr\<close> on floats.\<close>

definition example_config :: setup_config where
  "example_config =
     \<lparr>elements = [''Fe'', ''O''], atom_counts = [1, 1], formula_multipliers = [1, 3],
      pressure_gpa = 5, destination = [''run''], potcar_root = [''pot''],
      calypso_executable = ''/opt/calypso.x'', vasp_executable = ''/opt/vasp_std'',
      is_2d = False, num_layers = 1, relax_z = False, layer_type_matrix = None\<rparr>"

definition example_repr :: "pyfloat \<Rightarrow> string" where
  "example_repr x = fmt_6f x"

text \<open>A text without a line boundary in it, and a token: not empty and without white space.\<close>

definition clean :: "string \<Rightarrow> bool" where
  "clean s \<longleftrightarrow> (\<forall>c \<in> set s. \<not> is_boundary c)"

definition token :: "string \<Rightarrow> bool" where
  "token t \<longleftrightarrow> t \<noteq> [] \<and> (\<forall>c \<in> set t. \<not> isspace c)"

text \<open>A world whose only file has a line ended by a carriage return and a line feed.\<close>

definition crlf_world :: world where
  "crlf_world =
     \<lparr>dirs = {}, files = [[''input.dat''] \<mapsto> ''Other = keep'' @ [CHR 0x0D, CHR 0x0A]],
      undeletable = {}, stdout = []\<rparr>"

text \<open>The world of the test of \<^verbatim>\<open>adjust_input_dat\<close>.\<close>

definition scaler_world :: world where
  "scaler_world =
     \<lparr>dirs = {},
      files = [[''input.dat''] \<mapsto>
                 ''SystemName = Fe1O1\<newline>NumberOfAtoms = 1 1\<newline>Other = keep\<newline>''],
      undeletable = {}, stdout = []\<rparr>"

text \<open>The lines of a text, each ended by a line feed.\<close>

definition unlines :: "string list \<Rightarrow> string" where
  "unlines ls = concat (map (\<lambda>l. l @ [CHR 0x0A]) ls)"

text \<open>
  A line that the scaler leaves alone wherever it stands: it has no line boundary in
  it and begins with neither of the two fields.
\<close>

definition inert :: "string \<Rightarrow> bool" where
  "inert l \<longleftrightarrow>
     clean l \<and> \<not> startswith (l @ [CHR 0x0A]) ''SystemName = '' \<and>
     \<not> startswith (l @ [CHR 0x0A]) ''NumberOfAtoms = ''"

text \<open>A text of digits, signs, points and blanks.\<close>

definition numeric :: "string \<Rightarrow> bool" where
  "numeric s \<longleftrightarrow> (\<forall>c \<in> set s. c \<in> set ''0123456789-. '')"

text \<open>The rows of a block of the descriptor: no row at all is rendered as one empty line.\<close>

definition block_rows :: "string list \<Rightarrow> string list" where
  "block_rows rows = (if rows = [] then [''''] else rows)"

section \<open>Properties of the rounding to a double\<close>

lemma pow2_eq: "pow2 k = 2 powi k"
proof (induction k rule: pow2.induct)
  case (1 k)
  show ?case
  proof (cases "k < 0")
    case True
    then have "pow2 k = 1 / pow2 (- k)"
      by (subst pow2.simps) simp
    also have "\<dots> = 1 / (2 powi (- k))"
      using 1(1) [OF True] by simp
    also have "\<dots> = 2 powi k"
      by (simp add: power_int_minus field_simps)
    finally show ?thesis .
  next
    case False
    show ?thesis
    proof (cases "k = 0")
      case True
      then show ?thesis
        by (subst pow2.simps) simp
    next
      case k0: False
      have h: "pow2 (k div 2) = 2 powi (k div 2)"
        using 1(2) [OF False k0] .
      have hh: "(2 :: rat) powi (k div 2) * 2 powi (k div 2) = 2 powi (2 * (k div 2))"
        by (simp add: power_int_add [symmetric])
      show ?thesis
      proof (cases "even k")
        case True
        then have "2 * (k div 2) = k"
          by simp
        with hh h True False k0 show ?thesis
          by (subst pow2.simps) (simp add: Let_def)
      next
        case False
        then have "2 * (k div 2) + 1 = k"
          by simp
        then have "(2 :: rat) powi k = 2 * 2 powi (2 * (k div 2))"
          by (metis add.commute power_int_add_1' rel_simps(76) mult.commute power_int_add_1)
        with hh h False \<open>\<not> k < 0\<close> k0 show ?thesis
          by (subst pow2.simps) (simp add: Let_def)
      qed
    qed
  qed
qed

lemma py_round_of_int: "py_round (of_int n) = n"
  by (simp add: py_round_def Let_def)

lemma powi_strict: "j < k \<Longrightarrow> (2 :: rat) powi j < 2 powi k"
  by (rule power_int_strict_increasing) simp_all

lemma powi_mono: "j \<le> k \<Longrightarrow> (2 :: rat) powi j \<le> 2 powi k"
  by (rule power_int_increasing) simp_all

lemma powi_pos: "0 < (2 :: rat) powi k"
  by simp

lemma powi_Suc: "(2 :: rat) powi (k + 1) = 2 * 2 powi k"
  by (simp add: power_int_add)

lemma ilog2_bounds:
  assumes "0 < a"
  shows "2 powi (ilog2 a) \<le> a \<and> a < 2 powi (ilog2 a + 1)"
proof (cases "1 \<le> a")
  case True
  let ?n = "\<lfloor>a\<rfloor>"
  have n: "0 < ?n"
    using True by linarith
  have b: "1 \<le> bitlen ?n"
    using n bitlen_eq_zero_iff [of ?n] bitlen_nonneg [of ?n] by linarith
  from bitlen_bounds [OF n] have lo: "2 ^ nat (bitlen ?n - 1) \<le> ?n" and hi: "?n < 2 ^ nat (bitlen ?n)"
    by simp_all
  have e: "ilog2 a = bitlen ?n - 1"
    using True by (simp add: ilog2_def)
  have "(2 :: rat) powi (bitlen ?n - 1) = of_int (2 ^ nat (bitlen ?n - 1))"
    using b by (simp add: power_int_def)
  also have "\<dots> \<le> of_int ?n"
    using lo by (simp only: of_int_le_iff)
  also have "\<dots> \<le> a"
    by simp
  finally have 1: "2 powi (ilog2 a) \<le> a"
    by (simp add: e)
  have "?n + 1 \<le> 2 ^ nat (bitlen ?n)"
    using hi by simp
  then have "(of_int (?n + 1) :: rat) \<le> of_int (2 ^ nat (bitlen ?n))"
    by (simp only: of_int_le_iff)
  moreover have "a < of_int (?n + 1)"
    by simp linarith
  moreover have "(2 :: rat) powi (bitlen ?n) = of_int (2 ^ nat (bitlen ?n))"
    using b by (simp add: power_int_def)
  ultimately have "a < 2 powi (ilog2 a + 1)"
    by (simp add: e)
  with 1 show ?thesis ..
next
  case False
  let ?c = "\<lceil>1 / a\<rceil>"
  let ?m = "?c - 1"
  let ?k = "bitlen ?m"
  have a1: "a < 1"
    using False by simp
  have inv: "1 < 1 / a"
    using assms a1 by simp
  have m: "0 < ?m"
    using inv by (simp add: less_ceiling_iff)
  have k: "1 \<le> ?k"
    using m bitlen_eq_zero_iff [of ?m] bitlen_nonneg [of ?m] by linarith
  from bitlen_bounds [OF m] have lo: "2 ^ nat (?k - 1) \<le> ?m" and hi: "?m < 2 ^ nat ?k"
    by simp_all
  have e: "ilog2 a = - ?k"
    using False by (simp add: ilog2_def)
  have m_lt: "of_int ?m < 1 / a"
    by (metis ceiling_less_iff diff_add_cancel less_ceiling_iff zless_add1_eq less_irrefl linorder_not_less order_less_le)
  have c_ge: "1 / a \<le> of_int ?c"
    by (rule le_of_int_ceiling)
  have "?c \<le> 2 ^ nat ?k"
    using hi by simp
  then have "(of_int ?c :: rat) \<le> of_int (2 ^ nat ?k)"
    by (simp only: of_int_le_iff)
  with c_ge have "1 / a \<le> of_int (2 ^ nat ?k)"
    by (rule order_trans)
  then have "1 / a \<le> 2 ^ nat ?k"
    by simp
  then have "1 / a \<le> 2 powi ?k"
    using k by (simp add: power_int_def)
  then have 1: "2 powi (- ?k) \<le> a"
    using assms by (simp add: power_int_minus field_simps)
  have "(of_int (2 ^ nat (?k - 1)) :: rat) \<le> of_int ?m"
    using lo by (simp only: of_int_le_iff)
  then have "(of_int (2 ^ nat (?k - 1)) :: rat) < 1 / a"
    using m_lt by (rule order_le_less_trans)
  then have "2 ^ nat (?k - 1) < 1 / a"
    by simp
  then have "2 powi (?k - 1) < 1 / a"
    using k by (simp add: power_int_def)
  then have "a < 1 / 2 powi (?k - 1)"
    using assms by (simp add: field_simps)
  then have "a < 2 powi (- ?k + 1)"
    by (metis add.commute minus_diff_eq power_int_minus uminus_add_conv_diff inverse_eq_divide)
  with 1 show ?thesis
    by (simp add: e)
qed

lemma ilog2_unique:
  assumes "2 powi k \<le> a" and "a < 2 powi (k + 1)"
  shows "ilog2 a = k"
proof -
  have a: "0 < a"
    using assms(1) powi_pos [of k] by linarith
  from ilog2_bounds [OF a] have lo: "2 powi (ilog2 a) \<le> a" and hi: "a < 2 powi (ilog2 a + 1)"
    by simp_all
  have "\<not> k + 1 \<le> ilog2 a"
    using powi_mono [of "k + 1" "ilog2 a"] lo assms(2) by linarith
  moreover have "\<not> ilog2 a + 1 \<le> k"
    using powi_mono [of "ilog2 a + 1" k] hi assms(1) by linarith
  ultimately show ?thesis
    by linarith
qed

lemma ilog2_double:
  assumes "0 < a"
  shows "ilog2 (2 * a) = ilog2 a + 1"
proof (rule ilog2_unique)
  from ilog2_bounds [OF assms] show "2 powi (ilog2 a + 1) \<le> 2 * a"
    by (simp add: powi_Suc)
  from ilog2_bounds [OF assms] have "2 * a < 2 * 2 powi (ilog2 a + 1)"
    by simp
  then show "2 * a < 2 powi (ilog2 a + 1 + 1)"
    by (simp only: powi_Suc [of "ilog2 a + 1"])
qed

lemma ilog2_less:
  assumes "0 < a"
  shows "ilog2 a < k \<longleftrightarrow> a < 2 powi k"
proof
  assume "ilog2 a < k"
  then have "(2 :: rat) powi (ilog2 a + 1) \<le> 2 powi k"
    by (intro powi_mono) simp
  with ilog2_bounds [OF assms] show "a < 2 powi k"
    by linarith
next
  assume "a < 2 powi k"
  with ilog2_bounds [OF assms] have "(2 :: rat) powi (ilog2 a) < 2 powi k"
    by linarith
  then show "ilog2 a < k"
    using powi_mono [of k "ilog2 a"] by linarith
qed

lemma round_double_exact:
  assumes a: "0 < a" and n: "a = of_int n * 2 powi (max (ilog2 a) (- 1022) - 52)"
    and b: "a < 2 powi 1024"
  shows "round_double a = Finite a" and "round_double (- a) = Finite (- a)"
proof -
  let ?q = "(2 :: rat) powi (max (ilog2 a) (- 1022) - 52)"
  have q: "0 < ?q"
    by simp
  have "a / ?q = of_int n"
    using n q by (metis nonzero_mult_div_cancel_right less_irrefl)
  then have v: "of_int (py_round (a / ?q)) * ?q = a"
    using n by (simp add: py_round_of_int)
  have l: "\<not> 1024 \<le> ilog2 a"
    using ilog2_less [OF a, of 1024] b by simp
  show "round_double a = Finite a"
    using a l unfolding round_double_def Let_def pow2_eq
    by (simp only: abs_of_pos v) simp
  show "round_double (- a) = Finite (- a)"
    using a l unfolding round_double_def Let_def pow2_eq abs_minus_cancel
    by (simp only: abs_of_pos v) simp
qed

lemma round_double_overflow:
  assumes a: "0 < a" and n: "a = of_int n * 2 powi (max (ilog2 a) (- 1022) - 52)"
    and b: "2 powi 1024 \<le> a"
  shows "round_double a = PosInf"
proof -
  let ?q = "(2 :: rat) powi (max (ilog2 a) (- 1022) - 52)"
  have q: "0 < ?q"
    by simp
  have "a / ?q = of_int n"
    using n q by (metis nonzero_mult_div_cancel_right less_irrefl)
  then have v: "of_int (py_round (a / ?q)) * ?q = a"
    using n by (simp add: py_round_of_int)
  have l: "1024 \<le> ilog2 a"
    using ilog2_less [OF a, of 1024] b by simp
  show ?thesis
    using a l unfolding round_double_def Let_def pow2_eq
    by (simp only: abs_of_pos v) simp
qed

lemma round_double_fixed:
  assumes "round_double x = Finite x" and "x \<noteq> 0"
  shows "\<exists>n. \<bar>x\<bar> = of_int n * 2 powi (max (ilog2 \<bar>x\<bar>) (- 1022) - 52) \<and> \<bar>x\<bar> < 2 powi 1024"
proof -
  let ?a = "\<bar>x\<bar>"
  let ?q = "(2 :: rat) powi (max (ilog2 ?a) (- 1022) - 52)"
  let ?v = "of_int (py_round (?a / ?q)) * ?q"
  have r: "round_double x =
             (if ?v = 0 then (if x < 0 then NegZero else Finite 0)
              else if 1024 \<le> ilog2 ?v then (if x < 0 then NegInf else PosInf)
              else Finite (if x < 0 then - ?v else ?v))"
    using assms(2) unfolding round_double_def Let_def pow2_eq by simp
  have v: "?v = ?a"
    using r assms by (auto split: if_splits)
  have "\<not> 1024 \<le> ilog2 ?v"
    using r assms by (auto split: if_splits)
  then have "ilog2 ?a < 1024"
    unfolding v by simp
  then have "?a < 2 powi 1024"
    using ilog2_less [of ?a 1024] assms(2) by simp
  with v show ?thesis
    by (intro exI [of _ "py_round (?a / ?q)"]) simp
qed

lemma round_double_twice:
  assumes d: "round_double x = Finite x" and b: "\<bar>x\<bar> < 2 powi 1023"
  shows "round_double (x + x) = Finite (x + x)"
proof (cases "x = 0")
  case True
  then show ?thesis
    by (simp add: round_double_def)
next
  case False
  let ?a = "\<bar>x\<bar>"
  from round_double_fixed [OF d False] obtain n where
    n: "?a = of_int n * 2 powi (max (ilog2 ?a) (- 1022) - 52)"
    by blast
  have a: "0 < ?a"
    using False by simp
  have a2: "0 < 2 * ?a"
    using a by simp
  have l: "ilog2 (2 * ?a) = ilog2 ?a + 1"
    using ilog2_double [OF a] .
  have "\<exists>m. 2 * ?a = of_int m * 2 powi (max (ilog2 (2 * ?a)) (- 1022) - 52)"
  proof (cases "- 1022 \<le> ilog2 ?a")
    case True
    then have "max (ilog2 (2 * ?a)) (- 1022) - 52 = (max (ilog2 ?a) (- 1022) - 52) + 1"
      using l by simp
    then have "2 powi (max (ilog2 (2 * ?a)) (- 1022) - 52) = 2 * (2 :: rat) powi (max (ilog2 ?a) (- 1022) - 52)"
      by (simp only: powi_Suc)
    with n show ?thesis
      by (intro exI [of _ n]) simp
  next
    case False
    then have "max (ilog2 (2 * ?a)) (- 1022) - 52 = max (ilog2 ?a) (- 1022) - 52"
      using l by simp
    with n show ?thesis
      by (intro exI [of _ "2 * n"]) simp
  qed
  then obtain m where m: "2 * ?a = of_int m * 2 powi (max (ilog2 (2 * ?a)) (- 1022) - 52)"
    by blast
  have b2: "2 * ?a < 2 powi 1024"
    using b powi_Suc [of 1023] by simp
  show ?thesis
  proof (cases "0 < x")
    case True
    then have "x + x = 2 * ?a"
      by simp
    with round_double_exact(1) [OF a2 m b2] show ?thesis
      by simp
  next
    case neg: False
    then have "x + x = - (2 * ?a)"
      using False by simp
    with round_double_exact(2) [OF a2 m b2] show ?thesis
      by simp
  qed
qed

section \<open>Properties of the distance-of-ion matrix\<close>

lemma fadd_commute: "fadd x y = fadd y x"
  by (cases x; cases y) (simp_all add: add.commute)

lemma literal_06: "round_double (6 / 10) = Finite (5404319552844595 / 9007199254740992)"
  by code_simp

lemma literal_12: "round_double (12 / 10) = Finite (5404319552844595 / 4503599627370496)"
  by code_simp

lemma fmul_Finite:
  "fmul (Finite a) (Finite b) =
     (if a * b = 0 then (if (a < 0) \<noteq> (b < 0) then NegZero else Finite 0)
      else round_double (a * b))"
  by (simp add: fmul_def is_inf_def Let_def)

lemma fmul_twice:
  assumes "0 < c"
  shows "fmul (Finite (r + r)) (Finite c) = fmul (Finite r) (Finite (2 * c))"
proof -
  have a: "(r + r) * c = r * (2 * c)"
    by simp
  have b: "(r + r < 0) = (r < 0)"
    by auto
  have c: "(c < 0) = False" "(2 * c < 0) = False"
    using assms by simp_all
  show ?thesis
    unfolding fmul_Finite a b c ..
qed

lemma diagonal_entry:
  assumes "is_double x" and "\<not> twice_overflows x"
  shows "fmul (fadd x x) (round_double (6 / 10)) = fmul x (round_double (12 / 10))"
proof -
  have "fmul (fadd x x) (Finite (5404319552844595 / 9007199254740992)) =
        fmul x (Finite (5404319552844595 / 4503599627370496))"
  proof (cases x)
    case (Finite r)
    then have "round_double r = Finite r" and "\<bar>r\<bar> < 2 powi 1023"
      using assms by (simp_all add: is_double_def twice_overflows_def)
    then have "fadd x x = Finite (r + r)"
      using Finite round_double_twice by simp
    moreover have "(5404319552844595 / 4503599627370496 :: rat) =
                   2 * (5404319552844595 / 9007199254740992)"
      by simp
    ultimately show ?thesis
      unfolding Finite
      using fmul_twice [of "5404319552844595 / 9007199254740992" r] by simp
  qed (simp_all add: fmul_def is_inf_def is_zero_def)
  then show ?thesis
    unfolding literal_06 literal_12 .
qed

lemma mapM_total:
  assumes "\<And>x. x \<in> set xs \<Longrightarrow> f x = Inr (g x)"
  shows "mapM f xs = Inr (map g xs)"
  using assms by (induction xs) simp_all

lemma distance_entry_key:
  assumes "ki \<in> fst ` set d" and "kj \<in> fst ` set d"
  shows "distance_entry d ki kj = Inr (radius_sum d ki kj)"
proof -
  from assms obtain vi vj where "map_of d ki = Some vi" "map_of d kj = Some vj"
    by (metis domD dom_map_of_conv_image_fst)
  then show ?thesis
    by (simp add: distance_entry_def dict_get_def radius_sum_def)
qed

lemma calculate_distance_of_ion_eq:
  "calculate_distance_of_ion d =
     Inr (map (\<lambda>ki. map (\<lambda>kj. radius_sum d ki kj) (map fst d)) (map fst d))"
proof -
  have row: "mapM (\<lambda>kj. distance_entry d ki kj) (map fst d) = Inr (map (\<lambda>kj. radius_sum d ki kj) (map fst d))"
    if "ki \<in> fst ` set d" for ki
    using that
      mapM_total [of "map fst d" "\<lambda>kj. distance_entry d ki kj" "\<lambda>kj. radius_sum d ki kj"]
    by (simp add: distance_entry_key)
  show ?thesis
    unfolding calculate_distance_of_ion_def Let_def
    using mapM_total [of "map fst d"
        "\<lambda>ki. mapM (\<lambda>kj. distance_entry d ki kj) (map fst d)"
        "\<lambda>ki. map (\<lambda>kj. radius_sum d ki kj) (map fst d)"]
    by (simp add: row)
qed

lemma radius_sum_nth:
  assumes "distinct (map fst d)" and "i < length d" and "j < length d"
  shows "radius_sum d (fst (d ! i)) (fst (d ! j)) =
           fmul (fadd (snd (d ! i)) (snd (d ! j))) (round_double (6 / 10))"
proof -
  have "map_of d (fst (d ! i)) = Some (snd (d ! i))" "map_of d (fst (d ! j)) = Some (snd (d ! j))"
    using assms by (simp_all add: nth_mem)
  then show ?thesis
    by (simp add: radius_sum_def)
qed

lemma calculate_distance_of_ion_square:
  "\<exists>M. calculate_distance_of_ion d = Inr M \<and> length M = length d \<and>
     (\<forall>i < length d. length (M ! i) = length d)"
  using calculate_distance_of_ion_eq [of d] by simp

lemma single_matrix:
  "calculate_distance_of_ion [(k, x)] = Inr [[fmul (fadd x x) (round_double (6 / 10))]]"
  by (simp add: calculate_distance_of_ion_def distance_entry_def dict_get_def)

lemma pair_matrix:
  assumes "k1 \<noteq> k2"
  shows "calculate_distance_of_ion [(k1, x), (k2, y)] =
           Inr [[fmul (fadd x x) (round_double (6 / 10)), fmul (fadd x y) (round_double (6 / 10))],
                [fmul (fadd y x) (round_double (6 / 10)), fmul (fadd y y) (round_double (6 / 10))]]"
  using assms by (simp add: calculate_distance_of_ion_def distance_entry_def dict_get_def)

text \<open>
  Claim C4, as stated, fails on floats. The radius \<open>2 ^ 1023\<close> is a double, and the
  diagonal entry of its one-element map is the infinity, because the sum of the radius
  with itself overflows, while \<open>1.2\<close> times the radius is a finite double; and for the
  radii \<open>inf\<close> and \<open>-inf\<close> the entries off the diagonal are the nan, which is not equal to
  itself.
\<close>

theorem distance_of_ion_overflow_counterexample:
  "round_double (2 powi 1023) = Finite (2 powi 1023) \<and>
   calculate_distance_of_ion [(''Fe'', Finite (2 powi 1023))] = Inr [[PosInf]] \<and>
   fmul (Finite (2 powi 1023)) (round_double (12 / 10)) =
     Finite (5404319552844595 * 2 powi 971) \<and>
   \<not> feq PosInf (Finite (5404319552844595 * 2 powi 971)) \<and>
   calculate_distance_of_ion [(''Fe'', PosInf), (''O'', NegInf)] =
     Inr [[PosInf, NaN], [NaN, NegInf]] \<and>
   \<not> feq NaN NaN"
proof -
  have e1: "ilog2 (2 powi 1023) = 1023"
    by (rule ilog2_unique) (simp_all add: powi_mono)
  have e2: "ilog2 (2 powi 1024) = 1024"
    by (rule ilog2_unique) (simp_all add: powi_mono)
  have lo: "(2 :: rat) powi 1023 = 4503599627370496 * 2 powi 971"
    using power_int_add [of "2 :: rat" 52 971] by simp
  have hi: "(2 :: rat) powi 1024 = 9007199254740992 * 2 powi 971"
    using power_int_add [of "2 :: rat" 53 971] by simp
  have pq: "0 < (2 :: rat) powi 971"
    by (rule powi_pos)
  have k: "(1023 :: int) + 1 = 1024"
    by simp
  have "(4503599627370496 :: rat) \<le> 5404319552844595"
    by simp
  then have "4503599627370496 * 2 powi 971 \<le> 5404319552844595 * (2 :: rat) powi 971"
    using pq by (intro mult_right_mono) simp_all
  then have b1: "(2 :: rat) powi 1023 \<le> 5404319552844595 * 2 powi 971"
    by (simp only: lo)
  have "(5404319552844595 :: rat) < 9007199254740992"
    by simp
  then have "5404319552844595 * 2 powi 971 < 9007199254740992 * (2 :: rat) powi 971"
    using pq by (rule mult_strict_right_mono)
  then have b3: "(5404319552844595 * 2 powi 971 :: rat) < 2 powi 1024"
    by (simp only: hi)
  have e3: "ilog2 (5404319552844595 * 2 powi 971) = 1023"
    using b1 b3 by (intro ilog2_unique) (simp_all only: k)
  have p1: "(2 :: rat) powi 1023 = of_int 4503599627370496 * 2 powi (max (ilog2 (2 powi 1023)) (- 1022) - 52)"
    unfolding e1 using lo by simp
  have d1: "round_double (2 powi 1023) = Finite (2 powi 1023)"
    by (rule round_double_exact(1) [OF _ p1]) (simp_all add: powi_strict)
  have p3: "(5404319552844595 * 2 powi 971 :: rat) =
              of_int 5404319552844595 * 2 powi (max (ilog2 (5404319552844595 * 2 powi 971)) (- 1022) - 52)"
    unfolding e3 by simp
  have d3: "round_double (5404319552844595 * 2 powi 971) = Finite (5404319552844595 * 2 powi 971)"
    using pq by (intro round_double_exact(1) [OF _ p3 b3]) simp
  have p2: "(2 :: rat) powi 1024 = of_int 4503599627370496 * 2 powi (max (ilog2 (2 powi 1024)) (- 1022) - 52)"
    unfolding e2 using power_int_add [of "2 :: rat" 52 972] by simp
  have d2: "round_double (2 powi 1024) = PosInf"
    by (rule round_double_overflow [OF _ p2]) simp_all
  have "(2 :: rat) powi 1023 * (5404319552844595 / 4503599627370496) = 5404319552844595 * 2 powi 971"
    unfolding lo by simp
  moreover have "(5404319552844595 * 2 powi 971 :: rat) \<noteq> 0"
    using pq by simp
  ultimately have m: "fmul (Finite (2 powi 1023)) (round_double (12 / 10)) =
      Finite (5404319552844595 * 2 powi 971)"
    unfolding literal_12 fmul_Finite using d3 by (simp only: if_False)
  have "(2 :: rat) powi 1023 + 2 powi 1023 = 2 powi 1024"
    using powi_Suc [of 1023] by simp
  then have s: "fadd (Finite (2 powi 1023)) (Finite (2 powi 1023)) = PosInf"
    using d2 by (simp only: fadd.simps)
  have "fmul PosInf (round_double (6 / 10)) = PosInf"
    unfolding literal_06 by (simp add: fmul_def is_inf_def is_zero_def)
  then have c1: "calculate_distance_of_ion [(''Fe'', Finite (2 powi 1023))] = Inr [[PosInf]]"
    unfolding single_matrix s by (simp only:)
  have "calculate_distance_of_ion [(''Fe'', PosInf), (''O'', NegInf)] =
          Inr [[fmul (fadd PosInf PosInf) (round_double (6 / 10)),
                fmul (fadd PosInf NegInf) (round_double (6 / 10))],
               [fmul (fadd NegInf PosInf) (round_double (6 / 10)),
                fmul (fadd NegInf NegInf) (round_double (6 / 10))]]"
    by (rule pair_matrix) simp
  then have c2: "calculate_distance_of_ion [(''Fe'', PosInf), (''O'', NegInf)] =
                   Inr [[PosInf, NaN], [NaN, NegInf]]"
    unfolding literal_06 by (simp add: fmul_def is_inf_def is_zero_def)
  have f: "\<not> feq PosInf (Finite (5404319552844595 * 2 powi 971))" "\<not> feq NaN NaN"
    by (simp_all add: feq_def is_zero_def)
  from d1 c1 m f(1) c2 f(2) show ?thesis
    by (intro conjI)
qed

text \<open>
  Claim C4, amended. For every radius map (a dictionary, so with distinct keys; the
  empty and the one-element maps included) the function returns a square matrix of the
  dimension of the map whose entry \<open>[i][j]\<close> is the double \<open>(radius[i] + radius[j]) * 0.6\<close>,
  the sum and the product rounded to the nearest double. The entries \<open>[i][j]\<close> and
  \<open>[j][i]\<close> are the same double, and equal under \<^verbatim>\<open>==\<close> unless they are the nan. The
  diagonal entry \<open>[i][i]\<close> is the double \<open>1.2 * radius[i]\<close> whenever the radius is a double
  whose sum with itself does not overflow, that is, unless it is finite and at least
  \<open>2 ^ 1023\<close> in absolute value.
\<close>

theorem distance_of_ion_matrix:
  assumes "distinct (map fst d)"
  shows "\<exists>M. calculate_distance_of_ion d = Inr M \<and> length M = length d \<and>
           (\<forall>i < length d. length (M ! i) = length d \<and>
              (\<forall>j < length d.
                 M ! i ! j = fmul (fadd (snd (d ! i)) (snd (d ! j))) (round_double (6 / 10)) \<and>
                 M ! i ! j = M ! j ! i \<and>
                 (M ! i ! j \<noteq> NaN \<longrightarrow> feq (M ! i ! j) (M ! j ! i))) \<and>
              (is_double (snd (d ! i)) \<and> \<not> twice_overflows (snd (d ! i)) \<longrightarrow>
                 M ! i ! i = fmul (snd (d ! i)) (round_double (12 / 10))))"
proof -
  define M where "M = map (\<lambda>ki. map (\<lambda>kj. radius_sum d ki kj) (map fst d)) (map fst d)"
  have r: "calculate_distance_of_ion d = Inr M"
    unfolding M_def by (rule calculate_distance_of_ion_eq)
  have l: "length M = length d"
    by (simp add: M_def)
  have entry: "M ! i ! j = fmul (fadd (snd (d ! i)) (snd (d ! j))) (round_double (6 / 10))"
    if "i < length d" "j < length d" for i j
    using that radius_sum_nth [OF assms that] by (simp add: M_def)
  have diag: "M ! i ! i = fmul (snd (d ! i)) (round_double (12 / 10))"
    if "i < length d" "is_double (snd (d ! i)) \<and> \<not> twice_overflows (snd (d ! i))" for i
    using entry [OF that(1) that(1)] diagonal_entry [of "snd (d ! i)"] that(2) by simp
  have sym: "M ! i ! j = M ! j ! i" if "i < length d" "j < length d" for i j
    using entry [OF that] entry [OF that(2) that(1)]
      fadd_commute [of "snd (d ! i)" "snd (d ! j)"] by simp
  have eq: "feq (M ! i ! j) (M ! j ! i)"
    if "i < length d" "j < length d" "M ! i ! j \<noteq> NaN" for i j
    using sym [OF that(1) that(2)] that(3) by (simp add: feq_def)
  have len: "length (M ! i) = length d" if "i < length d" for i
    using that by (simp add: M_def)
  have row: "length (M ! i) = length d \<and>
      (\<forall>j < length d.
         M ! i ! j = fmul (fadd (snd (d ! i)) (snd (d ! j))) (round_double (6 / 10)) \<and>
         M ! i ! j = M ! j ! i \<and>
         (M ! i ! j \<noteq> NaN \<longrightarrow> feq (M ! i ! j) (M ! j ! i))) \<and>
      (is_double (snd (d ! i)) \<and> \<not> twice_overflows (snd (d ! i)) \<longrightarrow>
         M ! i ! i = fmul (snd (d ! i)) (round_double (12 / 10)))"
    if i: "i < length d" for i
  proof (intro conjI allI impI)
    show "length (M ! i) = length d"
      by (rule len [OF i])
    show "M ! i ! j = fmul (fadd (snd (d ! i)) (snd (d ! j))) (round_double (6 / 10))"
      if "j < length d" for j
      by (rule entry [OF i that])
    show "M ! i ! j = M ! j ! i" if "j < length d" for j
      by (rule sym [OF i that])
    show "feq (M ! i ! j) (M ! j ! i)" if "j < length d" "M ! i ! j \<noteq> NaN" for j
      by (rule eq [OF i that])
    show "M ! i ! i = fmul (snd (d ! i)) (round_double (12 / 10))"
      if "is_double (snd (d ! i)) \<and> \<not> twice_overflows (snd (d ! i))"
      by (rule diag [OF i that])
  qed
  from r l row show ?thesis
    by blast
qed

theorem distance_of_ion_matrix_witness:
  "distinct (map fst [(''Fe'', Finite 1), (''O'', Finite 2)]) \<and>
   is_double (Finite 1) \<and> \<not> twice_overflows (Finite 1) \<and>
   is_double (Finite 2) \<and> \<not> twice_overflows (Finite 2) \<and>
   calculate_distance_of_ion [(''Fe'', Finite 1), (''O'', Finite 2)] =
     Inr [[Finite (5404319552844595 / 4503599627370496),
           Finite (2026619832316723 / 1125899906842624)],
          [Finite (2026619832316723 / 1125899906842624),
           Finite (5404319552844595 / 2251799813685248)]] \<and>
   fmul (Finite 1) (round_double (12 / 10)) = Finite (5404319552844595 / 4503599627370496) \<and>
   fmul (Finite 2) (round_double (12 / 10)) = Finite (5404319552844595 / 2251799813685248) \<and>
   calculate_distance_of_ion [] = Inr []"
proof -
  have h: "distinct (map fst [(''Fe'', Finite 1), (''O'', Finite 2)])"
    by simp
  from distance_of_ion_matrix [OF h] obtain M where
    M: "calculate_distance_of_ion [(''Fe'', Finite 1), (''O'', Finite 2)] = Inr M"
    by blast
  have 1: "is_double (Finite 1)" "is_double (Finite 2)"
    by code_simp+
  have 2: "\<not> twice_overflows (Finite 1)" "\<not> twice_overflows (Finite 2)"
    using powi_strict [of 0 1023] powi_strict [of 1 1023] by (simp_all add: twice_overflows_def)
  have 3: "calculate_distance_of_ion [(''Fe'', Finite 1), (''O'', Finite 2)] =
     Inr [[Finite (5404319552844595 / 4503599627370496),
           Finite (2026619832316723 / 1125899906842624)],
          [Finite (2026619832316723 / 1125899906842624),
           Finite (5404319552844595 / 2251799813685248)]]"
    by code_simp
  have 4: "fmul (Finite 1) (round_double (12 / 10)) = Finite (5404319552844595 / 4503599627370496)"
    "fmul (Finite 2) (round_double (12 / 10)) = Finite (5404319552844595 / 2251799813685248)"
    by code_simp+
  have 6: "calculate_distance_of_ion [] = Inr []"
    by (simp add: calculate_distance_of_ion_def)
  from h 1(1) 2(1) 1(2) 2(2) 3 4 6 show ?thesis
    by (intro conjI)
qed

section \<open>The regular expressions: what a match is\<close>

lemma match_number_shape:
  assumes "match_number s = Some (g, r)"
  shows "\<exists>sg d1 d2. g = sg @ d1 @ d2 \<and> (sg = [] \<and> (\<forall>c t. s = c # t \<longrightarrow> c \<noteq> CHR ''-'' \<and> c \<noteq> CHR ''+'') \<or> sg = ''-'' \<or> sg = ''+'') \<and>
           list_all isdigit d1 \<and>
           (d2 = [] \<and> d1 \<noteq> [] \<or> (\<exists>f. d2 = CHR ''.'' # f \<and> f \<noteq> [] \<and> list_all isdigit f))"
proof -
  define sg where "sg = (case s of [] \<Rightarrow> [] | c # _ \<Rightarrow> if c = CHR ''-'' \<or> c = CHR ''+'' then [c] else [])"
  define s1 where "s1 = drop (length sg) s"
  define d1 where "d1 = takeWhile isdigit s1"
  define s2 where "s2 = dropWhile isdigit s1"
  have sg: "sg = [] \<and> (\<forall>c t. s = c # t \<longrightarrow> c \<noteq> CHR ''-'' \<and> c \<noteq> CHR ''+'') \<or> sg = ''-'' \<or> sg = ''+''"
    by (cases s) (auto simp: sg_def)
  have d1: "list_all isdigit d1"
    unfolding d1_def list_all_iff by (auto dest: set_takeWhileD)
  have tw: "list_all isdigit (takeWhile isdigit t)" for t
    unfolding list_all_iff by (auto dest: set_takeWhileD)
  have m: "(case s2 of
           [] \<Rightarrow> if d1 = [] then None else Some (sg @ d1, s2)
         | c # s3 \<Rightarrow>
             if c = CHR ''.'' \<and> takeWhile isdigit s3 \<noteq> []
             then Some (sg @ d1 @ [c] @ takeWhile isdigit s3, dropWhile isdigit s3)
             else if d1 = [] then None else Some (sg @ d1, s2)) = Some (g, r)"
    using assms unfolding match_number_def Let_def sg_def s1_def d1_def s2_def .
  show ?thesis
  proof (cases "\<exists>s3. s2 = CHR ''.'' # s3 \<and> takeWhile isdigit s3 \<noteq> []")
    case True
    then obtain s3 where s3: "s2 = CHR ''.'' # s3" "takeWhile isdigit s3 \<noteq> []"
      by blast
    with m have "g = sg @ d1 @ (CHR ''.'' # takeWhile isdigit s3)"
      by simp
    with sg d1 s3 tw [of s3] show ?thesis
      by blast
  next
    case False
    with m have "g = sg @ d1 @ [] \<and> d1 \<noteq> []"
      by (auto split: list.splits if_splits)
    with sg d1 show ?thesis
      by blast
  qed
qed

lemma float_unsigned_digits:
  assumes "list_all isdigit d1" and "d1 \<noteq> []"
  shows "float_unsigned d1 = Inr (of_nat (nat_of_digits d1 0))"
proof -
  have tw: "takeWhile isdigit d1 = d1" and dw: "dropWhile isdigit d1 = []"
    using assms(1) by (simp_all add: list_all_iff)
  show ?thesis
    unfolding float_unsigned_def Let_def tw dw using assms(2) by simp
qed

lemma isdigit_point [simp]: "\<not> isdigit CHR ''.''"
  by (simp add: isdigit_def)

lemma float_unsigned_point:
  assumes "list_all isdigit d1" and "list_all isdigit f" and "f \<noteq> []"
  shows "float_unsigned (d1 @ CHR ''.'' # f) =
           Inr (of_nat (nat_of_digits d1 0) + of_nat (nat_of_digits f 0) / 10 ^ length f)"
proof -
  have tw: "takeWhile isdigit (d1 @ CHR ''.'' # f) = d1"
    and dw: "dropWhile isdigit (d1 @ CHR ''.'' # f) = CHR ''.'' # f"
    using assms(1) by (simp_all add: list_all_iff takeWhile_append2 dropWhile_append2)
  show ?thesis
    unfolding float_unsigned_def Let_def tw dw using assms(2,3) by simp
qed

lemma float_unsigned_group:
  assumes "list_all isdigit d1"
    and "d2 = [] \<and> d1 \<noteq> [] \<or> (\<exists>f. d2 = CHR ''.'' # f \<and> f \<noteq> [] \<and> list_all isdigit f)"
  shows "\<exists>v. float_unsigned (d1 @ d2) = Inr v"
  using assms float_unsigned_digits [of d1] float_unsigned_point [of d1]
  by auto

lemma match_number_float:
  assumes "match_number s = Some (g, r)"
  shows "\<exists>v. py_float g = Inr v"
proof -
  from match_number_shape [OF assms] obtain sg d1 d2 where
    g: "g = sg @ d1 @ d2" and
    sg: "sg = [] \<and> (\<forall>c t. s = c # t \<longrightarrow> c \<noteq> CHR ''-'' \<and> c \<noteq> CHR ''+'') \<or> sg = ''-'' \<or> sg = ''+''" and
    d1: "list_all isdigit d1" and
    d2: "d2 = [] \<and> d1 \<noteq> [] \<or> (\<exists>f. d2 = CHR ''.'' # f \<and> f \<noteq> [] \<and> list_all isdigit f)"
    by blast
  from float_unsigned_group [OF d1 d2] obtain v where v: "float_unsigned (d1 @ d2) = Inr v"
    by blast
  have ne: "d1 @ d2 \<noteq> []"
    using d2 by auto
  from match_number_split [OF assms] have s: "s = g @ r"
    by simp
  show ?thesis
  proof (cases "sg = []")
    case True
    with g ne have "g \<noteq> []"
      by simp
    then obtain c t where ct: "g = c # t"
      by (meson list.exhaust)
    with s sg True have "c \<noteq> CHR ''-''" "c \<noteq> CHR ''+''"
      by auto
    with ct v g True show ?thesis
      by (simp add: py_float_def)
  next
    case False
    with sg g v show ?thesis
      by (auto simp: py_float_def)
  qed
qed

lemma match_single_float:
  assumes "match_single s = Some (g, r)"
  shows "\<exists>v. py_float g = Inr v"
  using assms match_number_float
  by (auto simp: match_single_def split: option.splits)

lemma match_pair_float:
  assumes "match_pair s = Some (g1, g2)"
  shows "\<exists>a b. py_float g1 = Inr a \<and> py_float g2 = Inr b"
  using assms match_single_float
  by (fastforce simp: match_pair_def split: option.splits list.splits if_splits prod.splits)

text \<open>The search returns the match at the leftmost position that has one.\<close>

lemma pair_search_leftmost:
  "pair_search s = Some m \<longleftrightarrow>
     (\<exists>i \<le> length s. match_pair (drop i s) = Some m \<and> (\<forall>j < i. match_pair (drop j s) = None))"
proof (induction s)
  case Nil
  show ?case
    by (simp add: match_pair_def match_single_def match_label_def)
next
  case (Cons c cs)
  show ?case
  proof (cases "match_pair (c # cs)")
    case (Some m')
    have "(\<exists>i \<le> length (c # cs). match_pair (drop i (c # cs)) = Some m \<and>
             (\<forall>j < i. match_pair (drop j (c # cs)) = None)) \<longleftrightarrow> m' = m"
    proof
      assume "\<exists>i \<le> length (c # cs). match_pair (drop i (c # cs)) = Some m \<and>
                (\<forall>j < i. match_pair (drop j (c # cs)) = None)"
      then obtain i where i: "match_pair (drop i (c # cs)) = Some m"
        "\<forall>j < i. match_pair (drop j (c # cs)) = None"
        by blast
      have "i = 0"
      proof (rule ccontr)
        assume "i \<noteq> 0"
        then have "match_pair (drop 0 (c # cs)) = None"
          using i(2) by blast
        with Some show False
          by simp
      qed
      with i(1) Some show "m' = m"
        by simp
    next
      assume "m' = m"
      with Some show "\<exists>i \<le> length (c # cs). match_pair (drop i (c # cs)) = Some m \<and>
                (\<forall>j < i. match_pair (drop j (c # cs)) = None)"
        by (intro exI [of _ 0]) simp
    qed
    with Some show ?thesis
      by simp
  next
    case None
    have "(\<exists>i \<le> length (c # cs). match_pair (drop i (c # cs)) = Some m \<and>
             (\<forall>j < i. match_pair (drop j (c # cs)) = None)) \<longleftrightarrow>
          (\<exists>i \<le> length cs. match_pair (drop i cs) = Some m \<and> (\<forall>j < i. match_pair (drop j cs) = None))"
      (is "?L \<longleftrightarrow> ?R")
    proof
      assume ?L
      then obtain i where i: "i \<le> length (c # cs)" "match_pair (drop i (c # cs)) = Some m"
        "\<forall>j < i. match_pair (drop j (c # cs)) = None"
        by blast
      from i(2) None obtain k where k: "i = Suc k"
        by (cases i) simp_all
      have "\<forall>j < k. match_pair (drop j cs) = None"
      proof (intro allI impI)
        fix j assume "j < k"
        then have "match_pair (drop (Suc j) (c # cs)) = None"
          using i(3) k by blast
        then show "match_pair (drop j cs) = None"
          by simp
      qed
      with i(1,2) k show ?R
        by (intro exI [of _ k]) simp
    next
      assume ?R
      then obtain k where k: "k \<le> length cs" "match_pair (drop k cs) = Some m"
        "\<forall>j < k. match_pair (drop j cs) = None"
        by blast
      have "\<forall>j < Suc k. match_pair (drop j (c # cs)) = None"
      proof (intro allI impI)
        fix j assume j: "j < Suc k"
        show "match_pair (drop j (c # cs)) = None"
        proof (cases j)
          case 0
          with None show ?thesis by simp
        next
          case (Suc j')
          with j k(3) show ?thesis by simp
        qed
      qed
      with k(1,2) show ?L
        by (intro exI [of _ "Suc k"]) simp
    qed
    with None Cons.IH show ?thesis
      by simp
  qed
qed

text \<open>
  A match of \<^verbatim>\<open>single_re\<close> begins with the letter R, and no R stands after the first
  character of the text it consumes: two matches cannot overlap.
\<close>

lemma match_label_head:
  assumes "match_label s = Some r"
  shows "\<exists>c t. s = c # t \<and> (c = CHR ''R'' \<or> c = CHR ''r'')"
  using assms by (auto simp: match_label_def split: list.splits if_splits)

lemma isspace_not_r: "isspace c \<Longrightarrow> \<not> is_r c"
  by (auto simp: isspace_def is_r_def)

lemma isdigit_not_r: "isdigit c \<Longrightarrow> \<not> is_r c"
  by (auto simp: isdigit_def is_r_def)

lemma match_label_consumed:
  assumes "match_label s = Some r"
  shows "\<exists>c p. s = c # p @ r \<and> is_r c \<and> (\<forall>x \<in> set p. \<not> is_r x)"
proof -
  from assms obtain c1 c2 c3 c4 c5 t where s: "s = c1 # c2 # c3 # c4 # c5 # t"
    and c: "is_r c1" "\<not> is_r c2" "\<not> is_r c3" "\<not> is_r c4" "\<not> is_r c5"
    by (auto simp: match_label_def is_r_def split: list.splits if_splits)
  from assms s obtain u where u: "dropWhile isspace t = CHR ''='' # u" and r: "r = dropWhile isspace u"
    by (auto simp: match_label_def split: list.splits if_splits)
  have t: "t = takeWhile isspace t @ CHR ''='' # u"
    using u takeWhile_dropWhile_id [of isspace t] by simp
  have u': "u = takeWhile isspace u @ r"
    using r by simp
  let ?p = "[c2, c3, c4, c5] @ takeWhile isspace t @ CHR ''='' # takeWhile isspace u"
  have "s = c1 # ?p @ r"
    using s t u' by simp
  moreover have "\<forall>x \<in> set ?p. \<not> is_r x"
    using c by (auto dest!: set_takeWhileD isspace_not_r simp: is_r_def)
  ultimately show ?thesis
    using c(1) by blast
qed

lemma match_number_no_r:
  assumes "match_number s = Some (g, r)"
  shows "\<forall>x \<in> set g. \<not> is_r x"
proof -
  from match_number_shape [OF assms] obtain sg d1 d2 where
    g: "g = sg @ d1 @ d2" and
    sg: "sg = [] \<and> (\<forall>c t. s = c # t \<longrightarrow> c \<noteq> CHR ''-'' \<and> c \<noteq> CHR ''+'') \<or> sg = ''-'' \<or> sg = ''+''" and
    d1: "list_all isdigit d1" and
    d2: "d2 = [] \<and> d1 \<noteq> [] \<or> (\<exists>f. d2 = CHR ''.'' # f \<and> f \<noteq> [] \<and> list_all isdigit f)"
    by blast
  have "\<forall>x \<in> set sg. \<not> is_r x"
    using sg by (auto simp: is_r_def)
  moreover have "\<forall>x \<in> set d1. \<not> is_r x"
    using d1 by (auto simp: list_all_iff dest: isdigit_not_r)
  moreover have "\<not> is_r CHR ''.''"
    by (simp add: is_r_def)
  then have "\<forall>x \<in> set d2. \<not> is_r x"
    using d2 by (auto simp: list_all_iff dest: isdigit_not_r)
  ultimately show ?thesis
    using g by auto
qed

lemma match_single_consumed:
  assumes "match_single s = Some (g, r)"
  shows "\<exists>c p. s = c # p @ r \<and> (\<forall>x \<in> set p. \<not> is_r x)"
proof -
  from assms obtain t where t: "match_label s = Some t" and n: "match_number t = Some (g, r)"
    by (auto simp: match_single_def split: option.splits)
  from match_label_consumed [OF t] obtain c p where p: "s = c # p @ t" "\<forall>x \<in> set p. \<not> is_r x"
    by blast
  from match_number_split [OF n] have "t = g @ r"
    by simp
  with p(1) have "s = c # (p @ g) @ r"
    by simp
  moreover have "\<forall>x \<in> set (p @ g). \<not> is_r x"
    using p(2) match_number_no_r [OF n] by auto
  ultimately show ?thesis
    by blast
qed

lemma match_single_head:
  assumes "match_single s = Some m"
  shows "\<exists>c t. s = c # t \<and> is_r c"
  using assms match_label_head [of s]
  by (auto simp: match_single_def is_r_def split: option.splits)

lemma match_single_no_overlap:
  assumes "match_single s = Some (g, r)" and "0 < i" and "i < length s - length r"
  shows "match_single (drop i s) = None"
proof (rule ccontr)
  assume "match_single (drop i s) \<noteq> None"
  then obtain m where m: "match_single (drop i s) = Some m"
    by blast
  from match_single_consumed [OF assms(1)] obtain c p where
    p: "s = c # p @ r" "\<forall>x \<in> set p. \<not> is_r x"
    by blast
  from assms(2) obtain k where k: "i = Suc k"
    by (cases i) simp_all
  with assms(3) p(1) have kp: "k < length p"
    by simp
  have "drop i s = drop k p @ r"
    using k p(1) kp by simp
  moreover from kp have "drop k p = p ! k # drop (Suc k) p"
    by (simp add: Cons_nth_drop_Suc)
  ultimately have "drop i s = p ! k # (drop (Suc k) p @ r)"
    by simp
  with match_single_head [OF m] have "is_r (p ! k)"
    by auto
  with p(2) kp show False
    by (metis nth_mem)
qed

text \<open>\<^verbatim>\<open>findall\<close> captures the group of every position at which the pattern matches.\<close>

lemma single_findall_set:
  "set (single_findall s) = {g. \<exists>i r. match_single (drop i s) = Some (g, r)}"
proof (induction s rule: single_findall.induct)
  case 1
  show ?case
    by (simp add: match_single_def match_label_def)
next
  case (2 c cs)
  show ?case
  proof (cases "match_single (c # cs)")
    case None
    have "{g. \<exists>i r. match_single (drop i (c # cs)) = Some (g, r)} =
          {g. \<exists>i r. match_single (drop i cs) = Some (g, r)}"
    proof (intro set_eqI iffI; clarify)
      fix g i r assume a: "match_single (drop i (c # cs)) = Some (g, r)"
      with None obtain k where "i = Suc k"
        by (cases i) simp_all
      with a show "\<exists>i r. match_single (drop i cs) = Some (g, r)"
        by auto
    next
      fix g i r assume "match_single (drop i cs) = Some (g, r)"
      then have "match_single (drop (Suc i) (c # cs)) = Some (g, r)"
        by simp
      then show "\<exists>i r. match_single (drop i (c # cs)) = Some (g, r)"
        by blast
    qed
    with None 2 show ?thesis
      by simp
  next
    case (Some m)
    obtain g0 r0 where m: "m = (g0, r0)"
      by (cases m)
    with Some have ms: "match_single (c # cs) = Some (g0, r0)"
      by simp
    from match_single_consumed [OF ms] obtain c' p where p: "c # cs = c' # p @ r0"
      by blast
    have "length (c # cs) = Suc (length p + length r0)"
      using arg_cong [OF p, of length] by simp
    then have len: "length (c # cs) - length r0 = Suc (length p)"
      by simp
    have dr: "drop (Suc (length p)) (c # cs) = r0"
      using p by simp
    have IH: "set (single_findall r0) = {g. \<exists>i r. match_single (drop i r0) = Some (g, r)}"
      using 2(2) [OF ms refl] by simp
    have "{g. \<exists>i r. match_single (drop i (c # cs)) = Some (g, r)} =
          insert g0 {g. \<exists>i r. match_single (drop i r0) = Some (g, r)}"
    proof (intro set_eqI iffI)
      fix g assume "g \<in> {g. \<exists>i r. match_single (drop i (c # cs)) = Some (g, r)}"
      then obtain i r where a: "match_single (drop i (c # cs)) = Some (g, r)"
        by blast
      consider "i = 0" | "0 < i" "i < Suc (length p)" | "Suc (length p) \<le> i"
        by linarith
      then show "g \<in> insert g0 {g. \<exists>i r. match_single (drop i r0) = Some (g, r)}"
      proof cases
        case 1
        with a ms show ?thesis by simp
      next
        case 2
        with match_single_no_overlap [OF ms, of i] len a show ?thesis
          by simp
      next
        case 3
        then obtain k where "i = Suc (length p) + k"
          using le_Suc_ex by blast
        then have "drop i (c # cs) = drop k r0"
          using dr by (metis add.commute drop_drop)
        with a show ?thesis
          by auto
      qed
    next
      fix g assume "g \<in> insert g0 {g. \<exists>i r. match_single (drop i r0) = Some (g, r)}"
      then consider "g = g0" | i r where "match_single (drop i r0) = Some (g, r)"
        by blast
      then show "g \<in> {g. \<exists>i r. match_single (drop i (c # cs)) = Some (g, r)}"
      proof cases
        case 1
        with ms have "match_single (drop 0 (c # cs)) = Some (g, r0)"
          by simp
        then show ?thesis
          by blast
      next
        case 2
        then have "match_single (drop (i + Suc (length p)) (c # cs)) = Some (g, r)"
          using dr by (metis drop_drop)
        then show ?thesis
          by blast
      qed
    qed
    with ms IH show ?thesis
      by simp
  qed
qed

lemma mapM_py_float_groups:
  assumes "\<forall>g \<in> set gs. \<exists>v. py_float g = Inr v"
  shows "\<exists>vals. mapM py_float gs = Inr vals \<and> set vals = {v. \<exists>g \<in> set gs. py_float g = Inr v} \<and>
           length vals = length gs"
  using assms
proof (induction gs)
  case Nil
  show ?case by simp
next
  case (Cons g gs)
  then obtain v vals where v: "py_float g = Inr v" and vals: "mapM py_float gs = Inr vals"
    "set vals = {v. \<exists>g \<in> set gs. py_float g = Inr v}" "length vals = length gs"
    by auto
  have "set (v # vals) = {u. \<exists>h \<in> set (g # gs). py_float h = Inr u}"
    using v vals(2) by auto
  with v vals show ?case
    by simp
qed

lemma findall_values:
  "\<exists>vals. mapM py_float (single_findall text) = Inr vals \<and> set vals = rwigs_occurrences text \<and>
     length vals = length (single_findall text)"
proof -
  have "\<forall>g \<in> set (single_findall text). \<exists>v. py_float g = Inr v"
    using match_single_float by (auto simp: single_findall_set)
  from mapM_py_float_groups [OF this] obtain vals where
    vals: "mapM py_float (single_findall text) = Inr vals"
      "set vals = {v. \<exists>g \<in> set (single_findall text). py_float g = Inr v}"
      "length vals = length (single_findall text)"
    by blast
  have "{v. \<exists>g \<in> set (single_findall text). py_float g = Inr v} = rwigs_occurrences text"
    by (auto simp: single_findall_set rwigs_occurrences_def)
  with vals show ?thesis
    by simp
qed

lemma pair_search_None:
  "pair_search text = None \<longleftrightarrow> (\<forall>i. match_pair (drop i text) = None)"
proof
  assume n: "pair_search text = None"
  show "\<forall>i. match_pair (drop i text) = None"
  proof (rule ccontr)
    assume "\<not> (\<forall>i. match_pair (drop i text) = None)"
    then have ex: "\<exists>i. match_pair (drop i text) \<noteq> None"
      by blast
    define i where "i = (LEAST i. match_pair (drop i text) \<noteq> None)"
    have i: "match_pair (drop i text) \<noteq> None"
      unfolding i_def using ex by (rule LeastI_ex)
    have least: "\<forall>j < i. match_pair (drop j text) = None"
      unfolding i_def using not_less_Least by blast
    have "i \<le> length text"
    proof (rule ccontr)
      assume "\<not> i \<le> length text"
      then have "drop i text = []"
        by simp
      with i show False
        by (simp add: match_pair_def match_single_def match_label_def)
    qed
    with i least have "\<exists>m. pair_search text = Some m"
      using pair_search_leftmost [of "text"] by blast
    with n show False
      by simp
  qed
next
  assume "\<forall>i. match_pair (drop i text) = None"
  then show "pair_search text = None"
    using pair_search_leftmost [of "text"] by (cases "pair_search text") auto
qed

text \<open>
  Claim C3. For every text of a pseudopotential file: when the paired pattern matches,
  the radius is the lesser of the two numbers of the leftmost match; when it matches
  nowhere, the radius is the minimum over all single occurrences in the text; and when
  there is no occurrence at all, the resolution fails with the \<^verbatim>\<open>ValueError\<close> of line 91.
  The text \<^verbatim>\<open>RWIGS = 1.20; RWIGS = 1.10\<close> resolves to 1.10.
\<close>

theorem radius_resolution:
  "(\<forall>g1 g2 i. match_pair (drop i text) = Some (g1, g2) \<and> (\<forall>j < i. match_pair (drop j text) = None) \<longrightarrow>
      (\<exists>a b. py_float g1 = Inr a \<and> py_float g2 = Inr b \<and>
         chosen_rwigs potcar_path text = Inr (min a b))) \<and>
   ((\<forall>i. match_pair (drop i text) = None) \<and> rwigs_occurrences text \<noteq> {} \<longrightarrow>
      finite (rwigs_occurrences text) \<and>
      chosen_rwigs potcar_path text = Inr (Min (rwigs_occurrences text))) \<and>
   (rwigs_occurrences text = {} \<longrightarrow>
      (\<forall>i. match_single (drop i text) = None) \<and>
      chosen_rwigs potcar_path text =
        Inl (ValueError (''No RWIGS entry found in '' @ str_path potcar_path)))"
proof (intro conjI allI impI)
  fix g1 g2 i
  assume a: "match_pair (drop i text) = Some (g1, g2) \<and> (\<forall>j < i. match_pair (drop j text) = None)"
  have "i \<le> length text"
  proof (rule ccontr)
    assume "\<not> i \<le> length text"
    then have "drop i text = []"
      by simp
    with a show False
      by (simp add: match_pair_def match_single_def match_label_def)
  qed
  with a have ps: "pair_search text = Some (g1, g2)"
    using pair_search_leftmost [of "text" "(g1, g2)"] by blast
  from a match_pair_float obtain x y where "py_float g1 = Inr x" "py_float g2 = Inr y"
    by blast
  with ps show "\<exists>a b. py_float g1 = Inr a \<and> py_float g2 = Inr b \<and>
         chosen_rwigs potcar_path text = Inr (min a b)"
    by (simp add: chosen_rwigs_def)
next
  assume a: "(\<forall>i. match_pair (drop i text) = None) \<and> rwigs_occurrences text \<noteq> {}"
  from findall_values [of "text"] obtain vals where
    vals: "mapM py_float (single_findall text) = Inr vals" "set vals = rwigs_occurrences text"
    by blast
  show "finite (rwigs_occurrences text)"
    using vals(2) by (metis List.finite_set)
  from a vals(2) obtain v vs where vs: "vals = v # vs"
    by (cases vals) auto
  have "chosen_rwigs potcar_path text = Inr (fold min vs v)"
    using a vals(1) vs pair_search_None [of "text"] by (simp add: chosen_rwigs_def)
  also have "fold min vs v = Min (set (v # vs))"
    by (rule Min.set_eq_fold [symmetric])
  finally show "chosen_rwigs potcar_path text = Inr (Min (rwigs_occurrences text))"
    using vals(2) vs by simp
next
  fix i
  assume a: "rwigs_occurrences text = {}"
  show "match_single (drop i text) = None"
  proof (rule ccontr)
    assume "match_single (drop i text) \<noteq> None"
    then obtain g r where m: "match_single (drop i text) = Some (g, r)"
      by auto
    from match_single_float [OF m] obtain v where "py_float g = Inr v"
      by blast
    with m have "v \<in> rwigs_occurrences text"
      unfolding rwigs_occurrences_def by blast
    with a show False
      by simp
  qed
next
  assume a: "rwigs_occurrences text = {}"
  from findall_values [of "text"] obtain vals where
    vals: "mapM py_float (single_findall text) = Inr vals" "set vals = rwigs_occurrences text"
    by blast
  with a have e: "vals = []"
    by simp
  have "\<forall>i. match_pair (drop i text) = None"
  proof (intro allI, rule ccontr)
    fix i assume "match_pair (drop i text) \<noteq> None"
    then obtain g r where m: "match_single (drop i text) = Some (g, r)"
      by (auto simp: match_pair_def split: option.splits)
    from match_single_float [OF m] obtain v where "py_float g = Inr v"
      by blast
    with m have "v \<in> rwigs_occurrences text"
      unfolding rwigs_occurrences_def by blast
    with a show False
      by simp
  qed
  then have "pair_search text = None"
    by (simp add: pair_search_None)
  with vals(1) e show "chosen_rwigs potcar_path text =
        Inl (ValueError (''No RWIGS entry found in '' @ str_path potcar_path))"
    by (simp add: chosen_rwigs_def)
qed

theorem radius_resolution_witness:
  "match_pair (drop 0 ''RWIGS = 1.20; RWIGS = 1.10'') = Some (''1.20'', ''1.10'') \<and>
   chosen_rwigs [''Fe'', ''POTCAR''] ''RWIGS = 1.20; RWIGS = 1.10'' = Inr (11 / 10) \<and>
   pair_search ''O\<newline>RWIGS = 0.80 rwigs=0.9\<newline>'' = None \<and>
   rwigs_occurrences ''O\<newline>RWIGS = 0.80 rwigs=0.9\<newline>'' \<noteq> {} \<and>
   chosen_rwigs [''O'', ''POTCAR''] ''O\<newline>RWIGS = 0.80 rwigs=0.9\<newline>'' =
     Inr (Min (rwigs_occurrences ''O\<newline>RWIGS = 0.80 rwigs=0.9\<newline>'')) \<and>
   chosen_rwigs [''O'', ''POTCAR''] ''O\<newline>RWIGS = 0.80 rwigs=0.9\<newline>'' = Inr (8 / 10) \<and>
   rwigs_occurrences ''RWIGS none'' = {} \<and>
   chosen_rwigs [''X'', ''POTCAR''] ''RWIGS none'' =
     Inl (ValueError ''No RWIGS entry found in /X/POTCAR'')"
proof -
  let ?t1 = "''RWIGS = 1.20; RWIGS = 1.10''"
  let ?t2 = "''O\<newline>RWIGS = 0.80 rwigs=0.9\<newline>''"
  let ?t3 = "''RWIGS none''"
  have m1: "match_pair (drop 0 ?t1) = Some (''1.20'', ''1.10'')"
    by (simp add: match_pair_def match_single_def match_label_def match_number_def isspace_def
        isdigit_def)
  have f1: "py_float ''1.20'' = Inr (12 / 10)" "py_float ''1.10'' = Inr (11 / 10)"
    by (simp_all add: py_float_def float_unsigned_def isdigit_def digit_val_def)
  from radius_resolution [of ?t1 "[''Fe'', ''POTCAR'']"] m1
  have "\<exists>a b. py_float ''1.20'' = Inr a \<and> py_float ''1.10'' = Inr b \<and>
          chosen_rwigs [''Fe'', ''POTCAR''] ?t1 = Inr (min a b)"
    by blast
  with f1 have c1: "chosen_rwigs [''Fe'', ''POTCAR''] ?t1 = Inr (11 / 10)"
    by auto
  have p2: "pair_search ?t2 = None"
    by (simp add: match_pair_def match_single_def match_label_def match_number_def isspace_def
        isdigit_def)
  have "match_single (drop 2 ?t2) = Some (''0.80'', '' rwigs=0.9\<newline>'')"
    by (simp add: match_single_def match_label_def match_number_def isspace_def isdigit_def)
  moreover have "py_float ''0.80'' = Inr (8 / 10)"
    by (simp add: py_float_def float_unsigned_def isdigit_def digit_val_def)
  ultimately have "8 / 10 \<in> rwigs_occurrences ?t2"
    unfolding rwigs_occurrences_def by blast
  then have o2: "rwigs_occurrences ?t2 \<noteq> {}"
    by blast
  have n2: "\<forall>i. match_pair (drop i ?t2) = None"
    using p2 pair_search_None [of ?t2] by (rule iffD1 [rotated])
  from radius_resolution [of ?t2 "[''O'', ''POTCAR'']"] n2 o2
  have c2: "chosen_rwigs [''O'', ''POTCAR''] ?t2 = Inr (Min (rwigs_occurrences ?t2))"
    by blast
  have c2': "chosen_rwigs [''O'', ''POTCAR''] ?t2 = Inr (8 / 10)"
    by (simp add: chosen_rwigs_def match_pair_def match_single_def match_label_def
        match_number_def isspace_def isdigit_def py_float_def float_unsigned_def digit_val_def)
  have "single_findall ?t3 = []"
    by (simp add: match_single_def match_label_def match_number_def isspace_def isdigit_def)
  with findall_values [of ?t3] have o3: "rwigs_occurrences ?t3 = {}"
    by auto
  from radius_resolution [of ?t3 "[''X'', ''POTCAR'']"] o3
  have "chosen_rwigs [''X'', ''POTCAR''] ?t3 =
          Inl (ValueError (''No RWIGS entry found in '' @ str_path [''X'', ''POTCAR'']))"
    by blast
  then have c3: "chosen_rwigs [''X'', ''POTCAR''] ?t3 =
          Inl (ValueError ''No RWIGS entry found in /X/POTCAR'')"
    by (simp add: str_path_def)
  from m1 c1 p2 o2 c2 c2' o3 c3 show ?thesis
    by blast
qed

section \<open>Reasoning about effects\<close>

lemmas io_defs = io_bind_def io_return_def io_raise_def io_of_def

lemma io_bind_Inr:
  "io_bind m f w = (Inr y, w'') \<longleftrightarrow> (\<exists>x w'. m w = (Inr x, w') \<and> f x w' = (Inr y, w''))"
  by (auto simp: io_bind_def split: prod.splits sum.splits)

lemma io_bind_Inl:
  "io_bind m f w = (Inl e, w'') \<longleftrightarrow>
     m w = (Inl e, w'') \<or> (\<exists>x w'. m w = (Inr x, w') \<and> f x w' = (Inl e, w''))"
  by (auto simp: io_bind_def split: prod.splits sum.splits)

lemma io_bind_step:
  "m w = (Inr x, w') \<Longrightarrow> io_bind m f w = f x w'"
  by (simp add: io_bind_def)

lemma io_bind_fail:
  "m w = (Inl e, w') \<Longrightarrow> io_bind m f w = (Inl e, w')"
  by (simp add: io_bind_def)

text \<open>
  A relation between the world before and after that every step of a computation
  keeps; it is kept by the whole computation when it is reflexive and transitive.
\<close>

lemma keeps_return: "keeps R (io_return x)" if "reflp R"
  using that by (simp add: keeps_def io_return_def reflp_def)

lemma keeps_raise: "keeps R (io_raise e)" if "reflp R"
  using that by (simp add: keeps_def io_raise_def reflp_def)

lemma keeps_of: "keeps R (io_of r)" if "reflp R"
  using that by (simp add: keeps_def io_of_def reflp_def)

lemma keeps_bind:
  assumes "transp R" and "keeps R m" and "\<And>x. keeps R (f x)"
  shows "keeps R (io_bind m f)"
  unfolding keeps_def
proof
  fix w
  show "R w (snd (io_bind m f w))"
  proof (cases "m w")
    case (Pair r w')
    have 1: "R w w'"
      using assms(2) Pair by (metis keeps_def snd_conv)
    show ?thesis
    proof (cases r)
      case (Inl e)
      with Pair 1 show ?thesis
        by (simp add: io_bind_def)
    next
      case (Inr x)
      have "R w' (snd (f x w'))"
        using assms(3) by (simp add: keeps_def)
      with 1 assms(1) have "R w (snd (f x w'))"
        by (meson transpD)
      with Pair Inr show ?thesis
        by (simp add: io_bind_def)
    qed
  qed
qed

lemma keeps_foreach:
  assumes "reflp R" and "transp R" and "\<And>x. x \<in> set xs \<Longrightarrow> keeps R (f x)"
  shows "keeps R (io_foreach xs f)"
  using assms(3)
proof (induction xs)
  case Nil
  show ?case
    using assms(1) by (simp add: keeps_return)
next
  case (Cons x xs)
  then show ?case
    using assms(2) by (simp add: keeps_bind)
qed

lemma keeps_fold:
  assumes "reflp R" and "transp R" and "\<And>x s. x \<in> set xs \<Longrightarrow> keeps R (f x s)"
  shows "keeps R (io_fold f xs s)"
  using assms(3)
proof (induction xs arbitrary: s)
  case Nil
  show ?case
    using assms(1) by (simp add: keeps_return)
next
  case (Cons x xs)
  then show ?case
    using assms(2) by (simp add: keeps_bind)
qed

lemma keepsD: "keeps R m \<Longrightarrow> m w = (r, w') \<Longrightarrow> R w w'"
  by (metis keeps_def snd_conv)

lemma same_files_refl: "reflp same_files" and same_files_trans: "transp same_files"
  by (auto simp: same_files_def reflp_def transp_def)

lemma same_tree_refl: "reflp same_tree" and same_tree_trans: "transp same_tree"
  by (auto simp: same_tree_def reflp_def transp_def)

lemma same_tree_files: "keeps same_tree m \<Longrightarrow> keeps same_files m"
  by (auto simp: keeps_def same_tree_def same_files_def)

lemma mkdir_one_files: "keeps same_files (mkdir_one p)"
  by (simp add: keeps_def same_files_def mkdir_one_def)

lemma mkdir_parents_files: "keeps same_files (mkdir_parents p)"
  unfolding mkdir_parents_def
  by (intro keeps_foreach same_files_refl same_files_trans mkdir_one_files)

lemma py_print_tree: "keeps same_tree (py_print s)"
  by (simp add: keeps_def same_tree_def py_print_def)

lemma read_text_tree: "keeps same_tree (read_text p)"
  by (simp add: keeps_def same_tree_def read_text_def split: option.splits)

lemma iterdir_dirs_tree: "keeps same_tree (iterdir_dirs p)"
  by (simp add: keeps_def same_tree_def iterdir_dirs_def)

lemma potcar_step_tree: "keeps same_tree (potcar_step proot av el acc)"
  unfolding potcar_step_def
  by (cases acc)
    (auto intro!: keeps_bind keeps_of keeps_return same_tree_refl same_tree_trans read_text_tree
      py_print_tree)

lemma potcar_fold_tree: "keeps same_tree (io_fold (potcar_step proot av) els acc)"
  by (intro keeps_fold same_tree_refl same_tree_trans potcar_step_tree)

section \<open>The radius map of \<^verbatim>\<open>find_potcar\<close>\<close>

lemma first_occurrences_set [simp]: "set (first_occurrences xs) = set xs"
  by (induction xs) auto

lemma first_occurrences_distinct [simp]: "distinct (first_occurrences xs)"
  by (induction xs) auto

lemma first_occurrences_id: "distinct xs \<Longrightarrow> first_occurrences xs = xs"
proof (induction xs)
  case Nil
  show ?case by simp
next
  case (Cons x xs)
  then have "filter (\<lambda>y. y \<noteq> x) xs = xs"
    by (auto intro: filter_True)
  with Cons show ?case
    by simp
qed

lemma potcar_step_Inr:
  assumes "potcar_step proot av el (c, rw, pk) w = (Inr acc', w')"
  shows "\<exists>text chosen. acc' = (c @ [text], AList.update el chosen rw, pk @ [chosen])"
  using assms unfolding potcar_step_def
  by (auto simp: io_bind_Inr io_return_def)

lemma potcar_fold_keys:
  assumes "io_fold (potcar_step proot av) els (c, rw, pk) w = (Inr (c', rw', pk'), w')"
  shows "map fst rw' = map fst rw @ filter (\<lambda>e. e \<notin> set (map fst rw)) (first_occurrences els) \<and>
         length pk' = length pk + length els"
  using assms
proof (induction els arbitrary: c rw pk w)
  case Nil
  then show ?case
    by (simp add: io_return_def)
next
  case (Cons el els)
  from Cons.prems obtain acc1 w1 where
    s: "potcar_step proot av el (c, rw, pk) w = (Inr acc1, w1)" and
    f: "io_fold (potcar_step proot av) els acc1 w1 = (Inr (c', rw', pk'), w')"
    by (auto simp: io_bind_Inr)
  from potcar_step_Inr [OF s] obtain tx chosen where
    acc1: "acc1 = (c @ [tx], AList.update el chosen rw, pk @ [chosen])"
    by blast
  note IH = Cons.IH [OF f [unfolded acc1]]
  have k: "map fst (AList.update el chosen rw) =
             (if el \<in> set (map fst rw) then map fst rw else map fst rw @ [el])"
    by (rule update_keys)
  show ?case
  proof (cases "el \<in> set (map fst rw)")
    case True
    have "filter (\<lambda>e. e \<notin> set (map fst rw)) (filter (\<lambda>y. y \<noteq> el) (first_occurrences els)) =
          filter (\<lambda>e. e \<notin> set (map fst rw)) (first_occurrences els)"
      using True by (auto intro: filter_cong)
    with IH k True show ?thesis
      by simp
  next
    case False
    have "filter (\<lambda>e. e \<notin> set (map fst rw @ [el])) (first_occurrences els) =
          filter (\<lambda>e. e \<notin> set (map fst rw)) (filter (\<lambda>y. y \<noteq> el) (first_occurrences els))"
      by (auto intro: filter_cong)
    with IH k False show ?thesis
      by simp
  qed
qed

lemma find_potcar_Inr:
  assumes "find_potcar els dest proot w = (Inr (rwigs_values, min_latom_dis), w')"
  shows "map fst rwigs_values = first_occurrences els"
proof -
  from assms obtain w1 av w2 c rw pk where
    "io_fold (potcar_step proot av) els ([], [], []) w1 = (Inr (c, rw, pk), w2)" and
    "rwigs_values = rw"
    unfolding find_potcar_def
    by (auto simp: io_bind_Inr io_return_def split: prod.splits)
  with potcar_fold_keys [of proot av els "[]" "[]" "[]" w1 c rw pk w2] show ?thesis
    by simp
qed

section \<open>Evaluation of the examples\<close>

lemmas match_defs = match_pair_def match_single_def match_label_def match_number_def isspace_def
  isdigit_def py_float_def float_unsigned_def digit_val_def chosen_rwigs_def

lemmas fs_defs = mkdir_parents_def mkdir_one_def is_dir_def iterdir_dirs_def read_text_def
  write_text_def py_print_def copy_file_def unlink_def

lemmas potcar_defs = find_potcar_def potcar_step_def select_potcar_def potcar_suffixes_def
  str_path_def

lemma find_potcar_example:
  "fst (find_potcar [''Fe'', ''O''] [''run''] [''pot''] example_world) =
     Inr ([(''Fe'', 11 / 10), (''O'', 8 / 10)], Some (8 / 10))"
  by code_simp

lemma find_potcar_repeated:
  "fst (find_potcar [''Fe'', ''Fe''] [''run''] [''pot''] example_world) =
     Inr ([(''Fe'', 11 / 10)], Some (11 / 10))"
  by code_simp

section \<open>Creating directories\<close>

lemma mkdir_one_cases:
  assumes "mkdir_one p w = (r, w')"
  shows "(r = Inr () \<and> is_dir w' p \<and> (w' = w \<or> w' = w\<lparr>dirs := insert p (dirs w)\<rparr>)) \<or>
         ((\<exists>e. r = Inl e) \<and> w' = w)"
  using assms by (auto simp: mkdir_one_def is_dir_def split: if_splits)

lemma mkdir_one_mono:
  assumes "mkdir_one p w = (r, w')"
  shows "dirs w \<subseteq> dirs w' \<and> dirs w' \<subseteq> insert p (dirs w)"
  using mkdir_one_cases [OF assms] by auto

lemma is_dir_mono: "dirs w \<subseteq> dirs w' \<Longrightarrow> is_dir w p \<Longrightarrow> is_dir w' p"
  by (auto simp: is_dir_def)

lemma mkdir_foreach_dirs:
  assumes "io_foreach qs mkdir_one w = (r, w')"
  shows "dirs w \<subseteq> dirs w' \<and> dirs w' \<subseteq> dirs w \<union> set qs"
  using assms
proof (induction qs arbitrary: w)
  case Nil
  then show ?case
    by (simp add: io_return_def)
next
  case (Cons q qs)
  show ?case
  proof (cases "mkdir_one q w")
    case (Pair r1 w1)
    note m = mkdir_one_mono [OF Pair]
    show ?thesis
    proof (cases r1)
      case (Inl e)
      with Pair Cons.prems have "w' = w1"
        by (simp add: io_bind_def)
      with m show ?thesis
        by auto
    next
      case (Inr u)
      with Pair Cons.prems have "io_foreach qs mkdir_one w1 = (r, w')"
        by (simp add: io_bind_def)
      from Cons.IH [OF this] m show ?thesis
        by auto
    qed
  qed
qed

lemma mkdir_foreach_made:
  assumes "io_foreach qs mkdir_one w = (Inr (), w')"
  shows "\<forall>q \<in> set qs. is_dir w' q"
  using assms
proof (induction qs arbitrary: w)
  case Nil
  show ?case by simp
next
  case (Cons q qs)
  from Cons.prems obtain w1 where
    1: "mkdir_one q w = (Inr (), w1)" and 2: "io_foreach qs mkdir_one w1 = (Inr (), w')"
    by (auto simp: io_bind_Inr)
  from mkdir_one_cases [OF 1] have "is_dir w1 q"
    by auto
  with mkdir_foreach_dirs [OF 2] have "is_dir w' q"
    using is_dir_mono by blast
  with Cons.IH [OF 2] show ?case
    by simp
qed

lemma mkdir_foreach_present:
  assumes "\<forall>q \<in> set qs. is_dir w q"
  shows "io_foreach qs mkdir_one w = (Inr (), w)"
  using assms
  by (induction qs) (simp_all add: io_return_def io_bind_def mkdir_one_def)

lemma mkdir_parents_dirs:
  assumes "mkdir_parents p w = (r, w')"
  shows "dirs w \<subseteq> dirs w' \<and> dirs w' \<subseteq> dirs w \<union> set (prefixes p)"
  using assms mkdir_foreach_dirs unfolding mkdir_parents_def by blast

lemma mkdir_parents_made:
  assumes "mkdir_parents p w = (Inr (), w')"
  shows "is_dir w' p"
  using mkdir_foreach_made [OF assms [unfolded mkdir_parents_def]] by simp

lemma mkdir_parents_again:
  assumes "mkdir_parents p w = (Inr (), w')"
  shows "mkdir_parents p w' = (Inr (), w')"
  using mkdir_foreach_made [OF assms [unfolded mkdir_parents_def]]
  unfolding mkdir_parents_def by (rule mkdir_foreach_present)

section \<open>The selection of the pseudopotential file and the failure of \<^verbatim>\<open>find_potcar\<close>\<close>

lemma potcar_step_resolved:
  assumes "select_potcar proot av el = Inr pth" and "files w pth = Some raw"
    and "chosen_rwigs pth (universal_newlines raw) = Inr r"
  shows "\<exists>acc'. potcar_step proot av el acc w =
           (Inr acc', w\<lparr>stdout := stdout w @ [el @ '': POTCAR read from '' @ str_path pth]\<rparr>)"
  using assms unfolding potcar_step_def
  by (cases acc) (simp add: io_defs read_text_def py_print_def)

lemma potcar_step_not_found:
  assumes "\<forall>sfx \<in> set potcar_suffixes. \<not> av (el @ sfx)"
  shows "potcar_step proot av el acc w =
           (Inl (FileNotFoundError
                  (''No suitable POTCAR found for '' @ el @ '' in '' @ str_path proot)), w)"
proof -
  have "find (\<lambda>sfx. av (el @ sfx)) potcar_suffixes = None"
    using assms by (simp add: find_None_iff)
  then show ?thesis
    unfolding potcar_step_def by (cases acc) (simp add: io_defs select_potcar_def)
qed

lemma potcar_fold_not_found:
  assumes "\<forall>x \<in> set pre. \<exists>pth raw r. select_potcar proot av x = Inr pth \<and> files w pth = Some raw \<and>
             chosen_rwigs pth (universal_newlines raw) = Inr r"
    and "\<forall>sfx \<in> set potcar_suffixes. \<not> av (el @ sfx)"
  shows "\<exists>w'. io_fold (potcar_step proot av) (pre @ el # post) acc w =
           (Inl (FileNotFoundError
                  (''No suitable POTCAR found for '' @ el @ '' in '' @ str_path proot)), w') \<and>
           same_tree w w'"
  using assms(1)
proof (induction pre arbitrary: acc w)
  case Nil
  show ?case
    using potcar_step_not_found [OF assms(2)]
    by (simp add: io_bind_def same_tree_def)
next
  case (Cons x pre)
  from Cons.prems obtain pth raw r where
    x: "select_potcar proot av x = Inr pth" "files w pth = Some raw"
      "chosen_rwigs pth (universal_newlines raw) = Inr r"
    by auto
  let ?w1 = "w\<lparr>stdout := stdout w @ [x @ '': POTCAR read from '' @ str_path pth]\<rparr>"
  from potcar_step_resolved [OF x] obtain acc' where
    s: "potcar_step proot av x acc w = (Inr acc', ?w1)"
    by blast
  have "\<forall>x \<in> set pre. \<exists>pth raw r. select_potcar proot av x = Inr pth \<and> files ?w1 pth = Some raw \<and>
             chosen_rwigs pth (universal_newlines raw) = Inr r"
    using Cons.prems by simp
  from Cons.IH [OF this, of acc'] obtain w' where
    "io_fold (potcar_step proot av) (pre @ el # post) acc' ?w1 =
           (Inl (FileNotFoundError
                  (''No suitable POTCAR found for '' @ el @ '' in '' @ str_path proot)), w')"
    "same_tree ?w1 w'"
    by blast
  with s show ?case
    by (auto simp: io_bind_def same_tree_def)
qed

lemma potcar_fold_fails:
  assumes "el \<in> set els" and "\<forall>sfx \<in> set potcar_suffixes. \<not> av (el @ sfx)"
  shows "\<exists>e w'. io_fold (potcar_step proot av) els acc w = (Inl e, w')"
  using assms(1)
proof (induction els arbitrary: acc w)
  case Nil
  then show ?case by simp
next
  case (Cons x els)
  show ?case
  proof (cases "potcar_step proot av x acc w")
    case (Pair r w1)
    show ?thesis
    proof (cases r)
      case (Inl e)
      with Pair show ?thesis
        by (simp add: io_bind_def)
    next
      case (Inr acc')
      have "x \<noteq> el"
      proof
        assume "x = el"
        with potcar_step_not_found [OF assms(2), of proot acc w] Pair Inr show False
          by simp
      qed
      with Cons.prems have "el \<in> set els"
        by simp
      from Cons.IH [OF this, of acc' w1] Pair Inr show ?thesis
        by (simp add: io_bind_def)
    qed
  qed
qed

lemma write_text_fail_same: "write_text p s w = (Inl e, w') \<Longrightarrow> w' = w"
  by (auto simp: write_text_def split: if_splits)

text \<open>A call of \<^verbatim>\<open>find_potcar\<close> that raises has written no file.\<close>

lemma find_potcar_Inl_files:
  assumes "find_potcar els dest proot w = (Inl e, w')"
  shows "same_files w w'"
proof -
  obtain r1 w1 where 1: "mkdir_parents dest w = (r1, w1)"
    by (cases "mkdir_parents dest w")
  have f1: "same_files w w1"
    using keepsD [OF mkdir_parents_files 1] .
  show ?thesis
  proof (cases r1)
    case (Inl e1)
    with 1 assms have "w' = w1"
      by (simp add: find_potcar_def io_bind_def)
    with f1 show ?thesis by simp
  next
    case (Inr u)
    obtain r2 w2 where 2: "iterdir_dirs proot w1 = (r2, w2)"
      by (cases "iterdir_dirs proot w1")
    have f2: "same_files w w2"
      using keepsD [OF same_tree_files [OF iterdir_dirs_tree] 2] f1
      by (simp add: same_files_def)
    show ?thesis
    proof (cases r2)
      case (Inl e2)
      with 1 2 Inr assms have "w' = w2"
        by (simp add: find_potcar_def io_bind_def)
      with f2 show ?thesis by simp
    next
      case av: (Inr av)
      obtain r3 w3 where 3: "io_fold (potcar_step proot av) els ([], [], []) w2 = (r3, w3)"
        by (cases "io_fold (potcar_step proot av) els ([], [], []) w2")
      have f3: "same_files w w3"
        using keepsD [OF same_tree_files [OF potcar_fold_tree] 3] f2
        by (simp add: same_files_def)
      show ?thesis
      proof (cases r3)
        case (Inl e3)
        with 1 2 3 Inr av assms have "w' = w3"
          by (simp add: find_potcar_def io_bind_def)
        with f3 show ?thesis by simp
      next
        case acc: (Inr acc)
        obtain c rw pk where a: "acc = (c, rw, pk)"
          by (cases acc)
        from 1 2 3 Inr av acc a assms
        have "io_bind (write_text (dest @ [''POTCAR'']) (concat c))
                (\<lambda>_. io_return (rw, case pk of [] \<Rightarrow> None | v # vs \<Rightarrow> Some (fold min vs v))) w3 =
              (Inl e, w')"
          by (simp add: find_potcar_def io_bind_def)
        then have "write_text (dest @ [''POTCAR'']) (concat c) w3 = (Inl e, w')"
          by (auto simp: io_bind_Inl io_return_def)
        from write_text_fail_same [OF this] f3 show ?thesis
          by simp
      qed
    qed
  qed
qed

lemma find_potcar_fails:
  assumes "x \<in> set els"
    and "\<forall>sfx \<in> set potcar_suffixes. proot @ [x @ sfx] \<notin> dirs w \<union> set (prefixes dest)"
  shows "\<exists>e w'. find_potcar els dest proot w = (Inl e, w')"
proof -
  obtain r1 w1 where 1: "mkdir_parents dest w = (r1, w1)"
    by (cases "mkdir_parents dest w")
  show ?thesis
  proof (cases r1)
    case (Inl e1)
    with 1 show ?thesis
      by (simp add: find_potcar_def io_bind_def)
  next
    case (Inr u)
    show ?thesis
    proof (cases "is_dir w1 proot")
      case False
      with 1 Inr show ?thesis
        by (simp add: find_potcar_def io_bind_def iterdir_dirs_def)
    next
      case True
      let ?av = "\<lambda>name. proot @ [name] \<in> dirs w1"
      have "\<forall>sfx \<in> set potcar_suffixes. \<not> ?av (x @ sfx)"
        using assms(2) mkdir_parents_dirs [OF 1] by blast
      from potcar_fold_fails [OF assms(1) this, of proot "([], [], [])" w1]
      obtain e w' where "io_fold (potcar_step proot ?av) els ([], [], []) w1 = (Inl e, w')"
        by blast
      with 1 Inr True show ?thesis
        by (simp add: find_potcar_def io_bind_def iterdir_dirs_def)
    qed
  qed
qed

lemma find_potcar_not_found:
  assumes "mkdir_parents dest w = (Inr (), w1)" and "is_dir w1 proot"
    and "\<forall>x \<in> set pre. resolves w1 proot x"
    and "\<forall>sfx \<in> set potcar_suffixes. proot @ [el @ sfx] \<notin> dirs w1"
  shows "\<exists>w2. find_potcar (pre @ el # post) dest proot w =
           (Inl (FileNotFoundError
                  (''No suitable POTCAR found for '' @ el @ '' in '' @ str_path proot)), w2) \<and>
           same_tree w1 w2"
proof -
  let ?av = "\<lambda>name. proot @ [name] \<in> dirs w1"
  have "\<forall>x \<in> set pre. \<exists>pth raw r. select_potcar proot ?av x = Inr pth \<and> files w1 pth = Some raw \<and>
             chosen_rwigs pth (universal_newlines raw) = Inr r"
    using assms(3) by (simp add: resolves_def)
  from potcar_fold_not_found [OF this, of el post "([], [], [])"] assms(4)
  obtain w2 where "io_fold (potcar_step proot ?av) (pre @ el # post) ([], [], []) w1 =
           (Inl (FileNotFoundError
                  (''No suitable POTCAR found for '' @ el @ '' in '' @ str_path proot)), w2)"
    "same_tree w1 w2"
    by blast
  with assms(1,2) show ?thesis
    by (simp add: find_potcar_def io_bind_def iterdir_dirs_def)
qed

lemma select_potcar_priority:
  "(av (el @ ''_pv'') \<longrightarrow> select_potcar proot av el = Inr (proot @ [el @ ''_pv'', ''POTCAR''])) \<and>
   (\<not> av (el @ ''_pv'') \<and> av (el @ ''_sv'') \<longrightarrow>
      select_potcar proot av el = Inr (proot @ [el @ ''_sv'', ''POTCAR''])) \<and>
   (\<not> av (el @ ''_pv'') \<and> \<not> av (el @ ''_sv'') \<and> av el \<longrightarrow>
      select_potcar proot av el = Inr (proot @ [el, ''POTCAR''])) \<and>
   (\<not> av (el @ ''_pv'') \<and> \<not> av (el @ ''_sv'') \<and> \<not> av el \<and> av (el @ ''_s'') \<longrightarrow>
      select_potcar proot av el = Inr (proot @ [el @ ''_s'', ''POTCAR''])) \<and>
   (\<not> av (el @ ''_pv'') \<and> \<not> av (el @ ''_sv'') \<and> \<not> av el \<and> \<not> av (el @ ''_s'') \<longrightarrow>
      select_potcar proot av el =
        Inl (FileNotFoundError (''No suitable POTCAR found for '' @ el @ '' in '' @ str_path proot)))"
  by (simp add: select_potcar_def potcar_suffixes_def)

text \<open>
  Claim C7. The file of an element is that of the first of the variants \<open>_pv\<close>, \<open>_sv\<close>,
  no suffix, \<open>_s\<close> whose directory exists under the root, and without any variant the
  selection fails with a \<^verbatim>\<open>FileNotFoundError\<close> naming the element and the root. When
  the elements before one without a variant resolve, that error is what \<^verbatim>\<open>find_potcar\<close>
  and \<^verbatim>\<open>setup_calypso\<close> raise, and no file has been written then. Whenever some element
  has no variant, \<^verbatim>\<open>setup_calypso\<close> raises and no file has been written.
\<close>

theorem potcar_priority_and_not_found:
  "(av (el @ ''_pv'') \<longrightarrow> select_potcar proot av el = Inr (proot @ [el @ ''_pv'', ''POTCAR''])) \<and>
   (\<not> av (el @ ''_pv'') \<and> av (el @ ''_sv'') \<longrightarrow>
      select_potcar proot av el = Inr (proot @ [el @ ''_sv'', ''POTCAR''])) \<and>
   (\<not> av (el @ ''_pv'') \<and> \<not> av (el @ ''_sv'') \<and> av el \<longrightarrow>
      select_potcar proot av el = Inr (proot @ [el, ''POTCAR''])) \<and>
   (\<not> av (el @ ''_pv'') \<and> \<not> av (el @ ''_sv'') \<and> \<not> av el \<and> av (el @ ''_s'') \<longrightarrow>
      select_potcar proot av el = Inr (proot @ [el @ ''_s'', ''POTCAR''])) \<and>
   (\<not> av (el @ ''_pv'') \<and> \<not> av (el @ ''_sv'') \<and> \<not> av el \<and> \<not> av (el @ ''_s'') \<longrightarrow>
      select_potcar proot av el =
        Inl (FileNotFoundError (''No suitable POTCAR found for '' @ el @ '' in '' @ str_path proot))) \<and>
   (mkdir_parents (destination config) w = (Inr (), w1) \<and> is_dir w1 (potcar_root config) \<and>
    elements config = pre @ el # post \<and> (\<forall>x \<in> set pre. resolves w1 (potcar_root config) x) \<and>
    (\<forall>sfx \<in> set potcar_suffixes. potcar_root config @ [el @ sfx] \<notin> dirs w1) \<longrightarrow>
      (\<exists>w2. find_potcar (elements config) (destination config) (potcar_root config) w =
               (Inl (FileNotFoundError (''No suitable POTCAR found for '' @ el @ '' in '' @
                       str_path (potcar_root config))), w2) \<and>
             files w2 = files w) \<and>
      (\<exists>w2. setup_calypso repr_float config w =
               (Inl (FileNotFoundError (''No suitable POTCAR found for '' @ el @ '' in '' @
                       str_path (potcar_root config))), w2) \<and>
             files w2 = files w)) \<and>
   ((\<exists>x \<in> set (elements config). \<forall>sfx \<in> set potcar_suffixes.
        potcar_root config @ [x @ sfx] \<notin> dirs w \<union> set (prefixes (destination config))) \<longrightarrow>
      (\<exists>e w2. setup_calypso repr_float config w = (Inl e, w2) \<and> files w2 = files w))"
proof -
  let ?msg = "FileNotFoundError (''No suitable POTCAR found for '' @ el @ '' in '' @
                str_path (potcar_root config))"
  have A: "(\<exists>w2. find_potcar (elements config) (destination config) (potcar_root config) w =
               (Inl ?msg, w2) \<and> files w2 = files w) \<and>
           (\<exists>w2. setup_calypso repr_float config w = (Inl ?msg, w2) \<and> files w2 = files w)"
    if h: "mkdir_parents (destination config) w = (Inr (), w1)" "is_dir w1 (potcar_root config)"
      "elements config = pre @ el # post" "\<forall>x \<in> set pre. resolves w1 (potcar_root config) x"
      "\<forall>sfx \<in> set potcar_suffixes. potcar_root config @ [el @ sfx] \<notin> dirs w1"
  proof -
    have f: "files w1 = files w"
      using keepsD [OF mkdir_parents_files h(1)] by (simp add: same_files_def)
    from find_potcar_not_found [OF h(1,2,4,5), of post] obtain w2 where
      1: "find_potcar (pre @ el # post) (destination config) (potcar_root config) w = (Inl ?msg, w2)"
        "same_tree w1 w2"
      by blast
    from find_potcar_not_found [OF mkdir_parents_again [OF h(1)] h(2,4,5), of post] obtain w3 where
      2: "find_potcar (pre @ el # post) (destination config) (potcar_root config) w1 = (Inl ?msg, w3)"
        "same_tree w1 w3"
      by blast
    have "setup_calypso repr_float config w = (Inl ?msg, w3)"
      unfolding setup_calypso_def
      using h(1) 2(1) by (simp add: io_bind_def h(3))
    with 1 2(2) f h(3) show ?thesis
      by (simp add: same_tree_def)
  qed
  have B: "\<exists>e w2. setup_calypso repr_float config w = (Inl e, w2) \<and> files w2 = files w"
    if h: "\<exists>x \<in> set (elements config). \<forall>sfx \<in> set potcar_suffixes.
        potcar_root config @ [x @ sfx] \<notin> dirs w \<union> set (prefixes (destination config))"
  proof -
    obtain r1 w1 where 1: "mkdir_parents (destination config) w = (r1, w1)"
      by (cases "mkdir_parents (destination config) w")
    have f1: "files w1 = files w"
      using keepsD [OF mkdir_parents_files 1] by (simp add: same_files_def)
    show ?thesis
    proof (cases r1)
      case (Inl e1)
      with 1 f1 show ?thesis
        by (simp add: setup_calypso_def io_bind_def)
    next
      case (Inr u)
      from h obtain x where x: "x \<in> set (elements config)"
        "\<forall>sfx \<in> set potcar_suffixes.
           potcar_root config @ [x @ sfx] \<notin> dirs w \<union> set (prefixes (destination config))"
        by blast
      have "\<forall>sfx \<in> set potcar_suffixes.
           potcar_root config @ [x @ sfx] \<notin> dirs w1 \<union> set (prefixes (destination config))"
        using x(2) mkdir_parents_dirs [OF 1] by blast
      from find_potcar_fails [OF x(1) this] obtain e w2 where
        2: "find_potcar (elements config) (destination config) (potcar_root config) w1 = (Inl e, w2)"
        by blast
      have "files w2 = files w1"
        using find_potcar_Inl_files [OF 2] by (simp add: same_files_def)
      moreover have "setup_calypso repr_float config w = (Inl e, w2)"
        unfolding setup_calypso_def
        using 1 Inr 2 by (simp add: io_bind_def)
      ultimately show ?thesis
        using f1 by simp
    qed
  qed
  from select_potcar_priority [of av el proot] A B show ?thesis
    by blast
qed

theorem potcar_priority_and_not_found_witness:
  "select_potcar [''pot''] (\<lambda>n. n = ''Fe_pv'' \<or> n = ''Fe'') ''Fe'' = Inr [''pot'', ''Fe_pv'', ''POTCAR''] \<and>
   select_potcar [''pot''] (\<lambda>n. n = ''Ti_sv'' \<or> n = ''Ti'') ''Ti'' = Inr [''pot'', ''Ti_sv'', ''POTCAR''] \<and>
   select_potcar [''pot''] (\<lambda>n. n = ''O'' \<or> n = ''O_s'') ''O'' = Inr [''pot'', ''O'', ''POTCAR''] \<and>
   select_potcar [''pot''] (\<lambda>n. n = ''C_s'') ''C'' = Inr [''pot'', ''C_s'', ''POTCAR''] \<and>
   select_potcar [''pot''] (\<lambda>n. n = ''C_s'') ''N'' =
     Inl (FileNotFoundError ''No suitable POTCAR found for N in /pot'') \<and>
   mkdir_parents [''run''] example_world =
     (Inr (), snd (mkdir_parents [''run''] example_world)) \<and>
   is_dir (snd (mkdir_parents [''run''] example_world)) [''pot''] \<and>
   resolves (snd (mkdir_parents [''run''] example_world)) [''pot''] ''Fe'' \<and>
   list_all (\<lambda>sfx. [''pot''] @ [''N'' @ sfx] \<notin> dirs (snd (mkdir_parents [''run''] example_world)))
     potcar_suffixes \<and>
   fst (find_potcar [''Fe'', ''N''] [''run''] [''pot''] example_world) =
     Inl (FileNotFoundError ''No suitable POTCAR found for N in /pot'') \<and>
   fst (setup_calypso example_repr (example_config\<lparr>elements := [''Fe'', ''N'']\<rparr>) example_world) =
     Inl (FileNotFoundError ''No suitable POTCAR found for N in /pot'') \<and>
   files (snd (setup_calypso example_repr (example_config\<lparr>elements := [''Fe'', ''N'']\<rparr>) example_world)) =
     files example_world \<and>
   ''N'' \<in> set [''Fe'', ''N''] \<and>
   list_all (\<lambda>sfx. [''pot''] @ [''N'' @ sfx] \<notin> dirs example_world \<union> set (prefixes [''run'']))
     potcar_suffixes"
proof -
  let ?c = "example_config\<lparr>elements := [''Fe'', ''N'']\<rparr>"
  let ?w1 = "snd (mkdir_parents [''run''] example_world)"
  have c: "destination ?c = [''run'']" "potcar_root ?c = [''pot'']" "elements ?c = [] @ [''Fe''] @ ''N'' # []"
    "elements ?c = [''Fe''] @ ''N'' # []" "elements ?c = [''Fe'', ''N'']"
    by (simp_all add: example_config_def)
  have s1: "select_potcar [''pot''] (\<lambda>n. n = ''Fe_pv'' \<or> n = ''Fe'') ''Fe'' = Inr [''pot'', ''Fe_pv'', ''POTCAR'']"
    using potcar_priority_and_not_found [of "\<lambda>n. n = ''Fe_pv'' \<or> n = ''Fe''" "''Fe''" "[''pot'']"]
    by simp
  have s2: "select_potcar [''pot''] (\<lambda>n. n = ''Ti_sv'' \<or> n = ''Ti'') ''Ti'' = Inr [''pot'', ''Ti_sv'', ''POTCAR'']"
    using potcar_priority_and_not_found [of "\<lambda>n. n = ''Ti_sv'' \<or> n = ''Ti''" "''Ti''" "[''pot'']"]
    by simp
  have s3: "select_potcar [''pot''] (\<lambda>n. n = ''O'' \<or> n = ''O_s'') ''O'' = Inr [''pot'', ''O'', ''POTCAR'']"
    using potcar_priority_and_not_found [of "\<lambda>n. n = ''O'' \<or> n = ''O_s''" "''O''" "[''pot'']"]
    by simp
  have s4: "select_potcar [''pot''] (\<lambda>n. n = ''C_s'') ''C'' = Inr [''pot'', ''C_s'', ''POTCAR'']"
    using potcar_priority_and_not_found [of "\<lambda>n. n = ''C_s''" "''C''" "[''pot'']"]
    by simp
  have s5: "select_potcar [''pot''] (\<lambda>n. n = ''C_s'') ''N'' =
     Inl (FileNotFoundError ''No suitable POTCAR found for N in /pot'')"
    using potcar_priority_and_not_found [of "\<lambda>n. n = ''C_s''" "''N''" "[''pot'']"]
    by (simp add: str_path_def)
  have "fst (mkdir_parents [''run''] example_world) = Inr ()"
    by code_simp
  then have m: "mkdir_parents [''run''] example_world = (Inr (), ?w1)"
    by (metis prod.collapse)
  have d: "is_dir ?w1 [''pot'']"
    by code_simp
  have "select_potcar [''pot''] (\<lambda>name. [''pot''] @ [name] \<in> dirs ?w1) ''Fe'' =
          Inr [''pot'', ''Fe_pv'', ''POTCAR'']"
    "files ?w1 [''pot'', ''Fe_pv'', ''POTCAR''] =
       Some ''Fe POTCAR\<newline>RWIGS = 1.20; RWIGS = 1.10\<newline>''"
    "chosen_rwigs [''pot'', ''Fe_pv'', ''POTCAR'']
       (universal_newlines ''Fe POTCAR\<newline>RWIGS = 1.20; RWIGS = 1.10\<newline>'') = Inr (11 / 10)"
    by code_simp+
  then have r: "resolves ?w1 [''pot''] ''Fe''"
    unfolding resolves_def by blast
  have n: "list_all (\<lambda>sfx. [''pot''] @ [''N'' @ sfx] \<notin> dirs ?w1) potcar_suffixes"
    by code_simp
  have n': "list_all (\<lambda>sfx. [''pot''] @ [''N'' @ sfx] \<notin> dirs example_world \<union> set (prefixes [''run'']))
     potcar_suffixes"
    by code_simp
  have hyp: "mkdir_parents (destination ?c) example_world = (Inr (), ?w1) \<and>
      is_dir ?w1 (potcar_root ?c) \<and> elements ?c = [''Fe''] @ ''N'' # [] \<and>
      (\<forall>x \<in> set [''Fe'']. resolves ?w1 (potcar_root ?c) x) \<and>
      (\<forall>sfx \<in> set potcar_suffixes. potcar_root ?c @ [''N'' @ sfx] \<notin> dirs ?w1)"
    using m d r n by (simp add: c list_all_iff)
  from mp [OF potcar_priority_and_not_found
    [of _ "''N''" _ ?c example_world ?w1 "[''Fe'']" "[]" example_repr,
      THEN conjunct2, THEN conjunct2, THEN conjunct2, THEN conjunct2, THEN conjunct2,
      THEN conjunct1] hyp]
  have "(\<exists>w2. find_potcar (elements ?c) (destination ?c) (potcar_root ?c) example_world =
               (Inl (FileNotFoundError (''No suitable POTCAR found for '' @ ''N'' @ '' in '' @
                       str_path (potcar_root ?c))), w2) \<and>
             files w2 = files example_world) \<and>
      (\<exists>w2. setup_calypso example_repr ?c example_world =
               (Inl (FileNotFoundError (''No suitable POTCAR found for '' @ ''N'' @ '' in '' @
                       str_path (potcar_root ?c))), w2) \<and>
             files w2 = files example_world)" .
  then have f: "fst (find_potcar [''Fe'', ''N''] [''run''] [''pot''] example_world) =
       Inl (FileNotFoundError ''No suitable POTCAR found for N in /pot'')"
    and g: "fst (setup_calypso example_repr ?c example_world) =
       Inl (FileNotFoundError ''No suitable POTCAR found for N in /pot'')"
    and h: "files (snd (setup_calypso example_repr ?c example_world)) = files example_world"
    by (auto simp: c str_path_def)
  from s1 s2 s3 s4 s5 m d r n f g h n' show ?thesis
    by simp
qed

section \<open>Lines and tokens\<close>

lemma splitlines_Cons_ne [simp]: "splitlines (c # s) \<noteq> []"
  by (cases s) (auto split: list.splits)

lemma splitlines_Nil_iff [simp]: "splitlines s = [] \<longleftrightarrow> s = []"
  by (cases s) simp_all

lemma concat_splitlines [simp]: "concat (splitlines s) = s"
  by (induction s rule: splitlines.induct) (auto split: list.splits)

lemma is_boundary_newline [simp]: "is_boundary (CHR 0x0A)"
  by (simp add: is_boundary_def)

lemma newline_not_return [simp]: "CHR 0x0A \<noteq> CHR 0x0D"
  by simp

lemma clean_simps [simp]:
  "clean []"
  "clean (c # s) \<longleftrightarrow> \<not> is_boundary c \<and> clean s"
  "clean (s @ t) \<longleftrightarrow> clean s \<and> clean t"
  by (auto simp: clean_def)

lemma clean_concat: "clean (concat xs) \<longleftrightarrow> (\<forall>x \<in> set xs. clean x)"
  by (auto simp: clean_def)

lemma not_boundary_return: "\<not> is_boundary c \<Longrightarrow> c \<noteq> CHR 0x0D"
  by (auto simp: is_boundary_def)

text \<open>A line without a line boundary in it, ended by a line feed, is split off whole.\<close>

lemma splitlines_line:
  assumes "clean l"
  shows "splitlines (l @ CHR 0x0A # rest) = (l @ [CHR 0x0A]) # splitlines rest"
  using assms
proof (induction l)
  case Nil
  show ?case
    by (cases rest) simp_all
next
  case (Cons c l)
  then have c: "\<not> is_boundary c" "c \<noteq> CHR 0x0D" and l: "clean l"
    by (auto dest: not_boundary_return)
  obtain d t where dt: "l @ CHR 0x0A # rest = d # t"
    by (cases "l @ CHR 0x0A # rest") auto
  from Cons.IH [OF l] c dt show ?case
    by simp
qed

lemma splitlines_last:
  assumes "clean l" and "l \<noteq> []"
  shows "splitlines l = [l]"
  using assms
proof (induction l)
  case Nil
  then show ?case by simp
next
  case (Cons c l)
  then have c: "\<not> is_boundary c" "c \<noteq> CHR 0x0D" and l: "clean l"
    by (auto dest: not_boundary_return)
  show ?case
  proof (cases l)
    case Nil
    then show ?thesis by simp
  next
    case (Cons d t)
    with Cons.IH l c show ?thesis
      by simp
  qed
qed

lemma universal_newlines_id:
  assumes "CHR 0x0D \<notin> set s"
  shows "universal_newlines s = s"
  using assms by (induction s rule: universal_newlines.induct) auto

section \<open>Decimal numerals\<close>

lemma digit_char_isdigit: "d < 10 \<Longrightarrow> isdigit (digit_char d)"
proof -
  assume "d < 10"
  then have "d \<in> {0, 1, 2, 3, 4, 5, 6, 7, 8, 9}"
    by auto
  then show ?thesis
    by (auto simp: digit_char_def isdigit_def)
qed

lemma digit_val_char: "d < 10 \<Longrightarrow> digit_val (digit_char d) = d"
proof -
  assume "d < 10"
  then have "d \<in> {0, 1, 2, 3, 4, 5, 6, 7, 8, 9}"
    by auto
  then show ?thesis
    by (auto simp: digit_char_def digit_val_def)
qed

lemma str_nat_digits: "list_all isdigit (str_nat n) \<and> str_nat n \<noteq> []"
proof (induction n rule: str_nat.induct)
  case (1 n)
  show ?case
  proof (cases "n < 10")
    case True
    then show ?thesis
      by (subst str_nat.simps, subst (2) str_nat.simps) (simp add: digit_char_isdigit)
  next
    case False
    with 1 show ?thesis
      by (subst str_nat.simps, subst (2) str_nat.simps) (simp add: digit_char_isdigit)
  qed
qed

lemma nat_of_digits_append:
  "nat_of_digits (xs @ ys) a = nat_of_digits ys (nat_of_digits xs a)"
  by (induction xs arbitrary: a) simp_all

lemma nat_of_str_nat: "nat_of_digits (str_nat n) 0 = n"
proof (induction n rule: str_nat.induct)
  case (1 n)
  show ?case
  proof (cases "n < 10")
    case True
    then show ?thesis
      by (subst str_nat.simps) (simp add: digit_val_char)
  next
    case False
    with 1 show ?thesis
      by (subst str_nat.simps) (simp add: nat_of_digits_append digit_val_char)
  qed
qed

lemma isdigit_not_space: "isdigit c \<Longrightarrow> \<not> isspace c"
  by (auto simp: isdigit_def isspace_def)

lemma isdigit_not_boundary: "isdigit c \<Longrightarrow> \<not> is_boundary c"
  by (auto simp: isdigit_def is_boundary_def)

lemma isdigit_not_sign: "isdigit c \<Longrightarrow> c \<noteq> CHR ''-'' \<and> c \<noteq> CHR ''+'' \<and> c \<noteq> CHR ''_''"
  by (auto simp: isdigit_def)

lemma int_body_ok_digits: "list_all isdigit s \<Longrightarrow> s \<noteq> [] \<Longrightarrow> int_body_ok s"
  by (induction s rule: int_body_ok.induct) (auto dest: isdigit_not_sign)

lemma filter_digits: "list_all isdigit s \<Longrightarrow> filter (\<lambda>c. c \<noteq> CHR ''_'') s = s"
  by (induction s) (auto dest: isdigit_not_sign)

lemma int_unsigned_str_nat: "int_unsigned s (str_nat n) = Inr (int n)"
  using str_nat_digits [of n]
  by (simp add: int_unsigned_def int_body_ok_digits filter_digits nat_of_str_nat)

lemma py_int_str_int: "py_int (str_int n) = Inr n"
proof (cases "n < 0")
  case True
  then show ?thesis
    by (simp add: py_int_def str_int_def int_unsigned_str_nat)
next
  case False
  obtain c t where ct: "str_nat (nat n) = c # t"
    using str_nat_digits [of "nat n"] by (cases "str_nat (nat n)") auto
  with str_nat_digits [of "nat n"] have "isdigit c"
    by simp
  then have "c \<noteq> CHR ''-''" "c \<noteq> CHR ''+''"
    by (auto dest: isdigit_not_sign)
  with False ct int_unsigned_str_nat [of "str_nat (nat n)" "nat n"] show ?thesis
    by (simp add: py_int_def str_int_def)
qed

lemma str_nat_token: "token (str_nat n)"
  using str_nat_digits [of n] by (auto simp: token_def list_all_iff dest: isdigit_not_space)

lemma str_int_token: "token (str_int n)"
proof -
  have "\<not> isspace CHR ''-''"
    by (simp add: isspace_def)
  then show ?thesis
    using str_nat_token [of "nat n"] str_nat_token [of "nat (- n)"]
    by (simp add: str_int_def token_def)
qed

lemma str_nat_clean: "clean (str_nat n)"
  using str_nat_digits [of n] by (auto simp: clean_def list_all_iff dest: isdigit_not_boundary)

lemma str_int_clean: "clean (str_int n)"
proof -
  have "\<not> is_boundary CHR ''-''"
    by (simp add: is_boundary_def)
  then show ?thesis
    using str_nat_clean [of "nat n"] str_nat_clean [of "nat (- n)"]
    by (simp add: str_int_def)
qed

lemma split_ws_space: "isspace c \<Longrightarrow> split_ws (c # s) = split_ws s"
  by (cases s) simp_all

lemma split_ws_snoc: "isspace c \<Longrightarrow> split_ws (s @ [c]) = split_ws s"
proof (induction s rule: split_ws.induct)
  case 1
  then show ?case by simp
next
  case (2 d)
  then show ?case by simp
next
  case (3 a b cs)
  then show ?case
    by (cases cs) (auto split: list.splits)
qed

lemma split_ws_token:
  assumes "token t" and "isspace c"
  shows "split_ws (t @ c # s) = t # split_ws s"
  using assms(1)
proof (induction t)
  case Nil
  then show ?case by (simp add: token_def)
next
  case (Cons a t)
  then have a: "\<not> isspace a" and t: "\<forall>x \<in> set t. \<not> isspace x"
    by (auto simp: token_def)
  show ?case
  proof (cases t)
    case Nil
    with a assms(2) show ?thesis by simp
  next
    case (Cons b u)
    with t have "token t" "\<not> isspace b"
      by (auto simp: token_def)
    with Cons.IH a Cons show ?thesis
      by simp
  qed
qed

lemma split_ws_dropWhile: "split_ws (dropWhile isspace s) = split_ws s"
  by (induction s) (simp_all add: split_ws_space)

lemma split_ws_strip: "split_ws (strip s) = split_ws s"
proof -
  have "split_ws (rev (dropWhile isspace (rev t))) = split_ws t" for t
  proof (induction t rule: rev_induct)
    case Nil
    show ?case by simp
  next
    case (snoc x xs)
    then show ?case
      by (simp add: split_ws_snoc)
  qed
  then show ?thesis
    by (simp add: strip_def split_ws_dropWhile)
qed

lemma isspace_blank [simp]: "isspace CHR '' ''" and isspace_newline [simp]: "isspace (CHR 0x0A)"
  by (simp_all add: isspace_def)

lemma split_ws_join:
  assumes "\<forall>t \<in> set ts. token t"
  shows "split_ws (join '' '' ts @ [CHR 0x0A]) = ts"
  using assms
proof (induction ts rule: induct_list012)
  case 1
  show ?case by simp
next
  case (2 x)
  then show ?case
    using split_ws_token [of x "CHR 0x0A" "[]"] by simp
next
  case (3 x y zs)
  then show ?case
    using split_ws_token [of x "CHR '' ''" "join '' '' (y # zs) @ [CHR 0x0A]"] by simp
qed

section \<open>The in-place scaler\<close>

lemma mapM_Inr_nth:
  assumes "mapM f xs = Inr ys"
  shows "length ys = length xs \<and> (\<forall>i < length xs. f (xs ! i) = Inr (ys ! i))"
  using assms
proof (induction xs arbitrary: ys)
  case Nil
  then show ?case by simp
next
  case (Cons x xs)
  from Cons.prems obtain y ys' where y: "f x = Inr y" "mapM f xs = Inr ys'" "ys = y # ys'"
    by (auto split: sum.splits)
  from Cons.IH [OF y(2)] y(1,3) show ?case
    by (auto simp: nth_Cons split: nat.splits)
qed

lemma startswith_append: "startswith s p \<longleftrightarrow> (\<exists>t. s = p @ t)"
  unfolding startswith_def
  by (metis append_eq_conv_conj append_take_drop_id)

lemma after_equals_system_name:
  assumes "startswith line ''SystemName = ''"
  shows "after_equals line = Inr (drop 12 line)"
proof -
  from assms obtain t where "line = ''SystemName = '' @ t"
    by (auto simp: startswith_append)
  then show ?thesis
    by (simp add: after_equals_def)
qed

lemma after_equals_number_of_atoms:
  assumes "startswith line ''NumberOfAtoms = ''"
  shows "after_equals line = Inr (drop 15 line)"
proof -
  from assms obtain t where "line = ''NumberOfAtoms = '' @ t"
    by (auto simp: startswith_append)
  then show ?thesis
    by (simp add: after_equals_def)
qed

lemma adjust_line_cases:
  assumes "adjust_line m line = Inr l'"
  shows "(startswith line ''SystemName = '' \<longrightarrow>
            l' = ''SystemName = '' @ strip (drop 12 line) @ str_int m @ [CHR 0x0A]) \<and>
         (\<not> startswith line ''SystemName = '' \<and> startswith line ''NumberOfAtoms = '' \<longrightarrow>
            (\<exists>atoms. mapM py_int (split_ws (strip (drop 15 line))) = Inr atoms \<and>
               l' = ''NumberOfAtoms = '' @ join '' '' (map (\<lambda>atom. str_int (atom * m)) atoms) @
                    [CHR 0x0A])) \<and>
         (\<not> startswith line ''SystemName = '' \<and> \<not> startswith line ''NumberOfAtoms = '' \<longrightarrow>
            l' = line)"
proof (intro conjI impI)
  assume a: "startswith line ''SystemName = ''"
  with assms after_equals_system_name [OF a]
  show "l' = ''SystemName = '' @ strip (drop 12 line) @ str_int m @ [CHR 0x0A]"
    by (simp add: adjust_line_def)
next
  assume a: "\<not> startswith line ''SystemName = '' \<and> startswith line ''NumberOfAtoms = ''"
  with assms after_equals_number_of_atoms [of line]
  show "\<exists>atoms. mapM py_int (split_ws (strip (drop 15 line))) = Inr atoms \<and>
          l' = ''NumberOfAtoms = '' @ join '' '' (map (\<lambda>atom. str_int (atom * m)) atoms) @ [CHR 0x0A]"
    by (auto simp: adjust_line_def split: sum.splits)
next
  assume "\<not> startswith line ''SystemName = '' \<and> \<not> startswith line ''NumberOfAtoms = ''"
  with assms show "l' = line"
    by (simp add: adjust_line_def)
qed

lemma write_text_Inr:
  "write_text p s w = (Inr u, w') \<Longrightarrow> w' = w\<lparr>files := (files w)(p \<mapsto> s)\<rparr>"
  by (auto simp: write_text_def split: if_splits)

text \<open>
  Claim C9, as stated, fails: a file whose only line is \<^verbatim>\<open>Other = keep\<close>, ended by a
  carriage return and a line feed, has none of the two fields, and the scaler writes it
  back without the carriage return.
\<close>

theorem scaler_line_ending_counterexample:
  "files crlf_world [''input.dat''] = Some (''Other = keep'' @ [CHR 0x0D, CHR 0x0A]) \<and>
   fst (adjust_input_dat [''input.dat''] 3 crlf_world) = Inr () \<and>
   files (snd (adjust_input_dat [''input.dat''] 3 crlf_world)) [''input.dat''] =
     Some (''Other = keep'' @ [CHR 0x0A])"
  by code_simp

text \<open>
  Claim C9, amended. The scaler reads the file as text, so that the line endings
  \<^verbatim>\<open>\r\n\<close> and \<^verbatim>\<open>\r\<close> are read as \<^verbatim>\<open>\n\<close>, and splits what it read into lines. When it
  returns, the file holds the lines in their order, where a line beginning with the
  system-name field has the multiplier appended to its value, a line beginning with
  the atom-counts field has every count multiplied, and every other line is the line
  that was read, character by character; no other file changes. When it raises, the
  world is as it was.
\<close>

theorem scaler_frame:
  assumes "adjust_input_dat p m w = (r, w')" and "files w p = Some raw"
  shows "concat (splitlines (universal_newlines raw)) = universal_newlines raw \<and>
         (\<forall>e. r = Inl e \<longrightarrow> w' = w) \<and>
         (r = Inr () \<longrightarrow>
            (\<exists>new. w' = w\<lparr>files := (files w)(p \<mapsto> concat new)\<rparr> \<and>
               length new = length (splitlines (universal_newlines raw)) \<and>
               (\<forall>i < length new.
                  (startswith (splitlines (universal_newlines raw) ! i) ''SystemName = '' \<longrightarrow>
                     new ! i = ''SystemName = '' @
                       strip (drop 12 (splitlines (universal_newlines raw) ! i)) @ str_int m @
                       [CHR 0x0A]) \<and>
                  (\<not> startswith (splitlines (universal_newlines raw) ! i) ''SystemName = '' \<and>
                   startswith (splitlines (universal_newlines raw) ! i) ''NumberOfAtoms = '' \<longrightarrow>
                     (\<exists>atoms. mapM py_int
                                (split_ws (strip (drop 15 (splitlines (universal_newlines raw) ! i)))) =
                              Inr atoms \<and>
                        new ! i = ''NumberOfAtoms = '' @
                          join '' '' (map (\<lambda>atom. str_int (atom * m)) atoms) @ [CHR 0x0A])) \<and>
                  (\<not> startswith (splitlines (universal_newlines raw) ! i) ''SystemName = '' \<and>
                   \<not> startswith (splitlines (universal_newlines raw) ! i) ''NumberOfAtoms = '' \<longrightarrow>
                     new ! i = splitlines (universal_newlines raw) ! i))))"
proof (intro conjI allI impI)
  show "concat (splitlines (universal_newlines raw)) = universal_newlines raw"
    by simp
next
  fix e assume "r = Inl e"
  with assms show "w' = w"
    by (auto simp: adjust_input_dat_def io_bind_Inl read_text_def io_of_def
        dest: write_text_fail_same)
next
  let ?ls = "splitlines (universal_newlines raw)"
  assume "r = Inr ()"
  with assms obtain new where
    n: "mapM (adjust_line m) ?ls = Inr new" and
    w: "write_text p (concat new) w = (Inr (), w')"
    by (auto simp: adjust_input_dat_def io_bind_Inr read_text_def io_of_def)
  from mapM_Inr_nth [OF n] have len: "length new = length ?ls"
    and each: "\<forall>i < length ?ls. adjust_line m (?ls ! i) = Inr (new ! i)"
    by simp_all
  have "(startswith (?ls ! i) ''SystemName = '' \<longrightarrow>
             new ! i = ''SystemName = '' @ strip (drop 12 (?ls ! i)) @ str_int m @ [CHR 0x0A]) \<and>
          (\<not> startswith (?ls ! i) ''SystemName = '' \<and> startswith (?ls ! i) ''NumberOfAtoms = '' \<longrightarrow>
             (\<exists>atoms. mapM py_int (split_ws (strip (drop 15 (?ls ! i)))) = Inr atoms \<and>
                new ! i = ''NumberOfAtoms = '' @
                  join '' '' (map (\<lambda>atom. str_int (atom * m)) atoms) @ [CHR 0x0A])) \<and>
          (\<not> startswith (?ls ! i) ''SystemName = '' \<and> \<not> startswith (?ls ! i) ''NumberOfAtoms = '' \<longrightarrow>
             new ! i = ?ls ! i)" if "i < length new" for i
  proof -
    from that len each have "adjust_line m (?ls ! i) = Inr (new ! i)"
      by simp
    from adjust_line_cases [OF this] show ?thesis .
  qed
  with write_text_Inr [OF w] len
  show "\<exists>new. w' = w\<lparr>files := (files w)(p \<mapsto> concat new)\<rparr> \<and>
               length new = length ?ls \<and>
               (\<forall>i < length new.
                  (startswith (?ls ! i) ''SystemName = '' \<longrightarrow>
                     new ! i = ''SystemName = '' @ strip (drop 12 (?ls ! i)) @ str_int m @ [CHR 0x0A]) \<and>
                  (\<not> startswith (?ls ! i) ''SystemName = '' \<and>
                   startswith (?ls ! i) ''NumberOfAtoms = '' \<longrightarrow>
                     (\<exists>atoms. mapM py_int (split_ws (strip (drop 15 (?ls ! i)))) = Inr atoms \<and>
                        new ! i = ''NumberOfAtoms = '' @
                          join '' '' (map (\<lambda>atom. str_int (atom * m)) atoms) @ [CHR 0x0A])) \<and>
                  (\<not> startswith (?ls ! i) ''SystemName = '' \<and>
                   \<not> startswith (?ls ! i) ''NumberOfAtoms = '' \<longrightarrow>
                     new ! i = ?ls ! i))"
    by (intro exI [of _ new] conjI allI impI) simp_all
qed

lemma scaler_example:
  "fst (adjust_input_dat [''input.dat''] 3 scaler_world) = Inr ()"
  "files (snd (adjust_input_dat [''input.dat''] 3 scaler_world)) [''input.dat''] =
     Some ''SystemName = Fe1O13\<newline>NumberOfAtoms = 3 3\<newline>Other = keep\<newline>''"
  "files scaler_world [''input.dat''] =
     Some ''SystemName = Fe1O1\<newline>NumberOfAtoms = 1 1\<newline>Other = keep\<newline>''"
  "length (splitlines (universal_newlines
     ''SystemName = Fe1O1\<newline>NumberOfAtoms = 1 1\<newline>Other = keep\<newline>'')) = 3"
  by code_simp+

theorem scaler_frame_witness:
  "adjust_input_dat [''input.dat''] 3 scaler_world =
     (Inr (), snd (adjust_input_dat [''input.dat''] 3 scaler_world)) \<and>
   files scaler_world [''input.dat''] =
     Some ''SystemName = Fe1O1\<newline>NumberOfAtoms = 1 1\<newline>Other = keep\<newline>'' \<and>
   (\<exists>new. snd (adjust_input_dat [''input.dat''] 3 scaler_world) =
            scaler_world\<lparr>files := (files scaler_world)([''input.dat''] \<mapsto> concat new)\<rparr> \<and>
          length new = 3) \<and>
   files (snd (adjust_input_dat [''input.dat''] 3 scaler_world)) [''input.dat''] =
     Some ''SystemName = Fe1O13\<newline>NumberOfAtoms = 3 3\<newline>Other = keep\<newline>''"
proof -
  have r: "adjust_input_dat [''input.dat''] 3 scaler_world =
     (Inr (), snd (adjust_input_dat [''input.dat''] 3 scaler_world))"
    using scaler_example(1) by (metis prod.collapse)
  from scaler_frame [OF r scaler_example(3)] obtain new where
    "snd (adjust_input_dat [''input.dat''] 3 scaler_world) =
       scaler_world\<lparr>files := (files scaler_world)([''input.dat''] \<mapsto> concat new)\<rparr>"
    "length new = length (splitlines (universal_newlines
       ''SystemName = Fe1O1\<newline>NumberOfAtoms = 1 1\<newline>Other = keep\<newline>''))"
    by blast
  then have "\<exists>new. snd (adjust_input_dat [''input.dat''] 3 scaler_world) =
            scaler_world\<lparr>files := (files scaler_world)([''input.dat''] \<mapsto> concat new)\<rparr> \<and>
          length new = 3"
    unfolding scaler_example(4) by blast
  with r scaler_example(2,3) show ?thesis
    by blast
qed

section \<open>Claim C10\<close>

lemma create_input_dat_Inr:
  assumes "create_input_dat repr_float directory els counts matrix min_latom_dis two_d layers
             relax base_area ltm formula_value w = (Inr u, w')"
  shows "\<exists>two_d_parameters.
           files w' (directory @ [''input.dat'']) =
             Some (input_template (system_name_of els counts) (str_int (int (length els)))
                     (join '' '' els) (number_of_atoms_of counts)
                     (distance_of_ion_str_of matrix) two_d_parameters)"
proof -
  from assms obtain w1 w2 two_d_parameters where
    "write_text (directory @ [''input.dat''])
       (input_template (system_name_of els counts) (str_int (int (length els)))
          (join '' '' els) (number_of_atoms_of counts)
          (distance_of_ion_str_of matrix) two_d_parameters) w2 = (Inr u, w')"
    unfolding create_input_dat_def io_bind_Inr by blast
  from write_text_Inr [OF this] show ?thesis
    by (intro exI [of _ two_d_parameters]) simp
qed

lemma create_input_dat_example:
  "fst (create_input_dat example_repr [''run''] [''Fe'', ''O''] [1, 1] matrix (Some (8 / 10))
          False 1 False None None 1 example_world) = Inr ()"
  by (simp add: create_input_dat_def two_d_parameters_of_def fs_defs io_defs io_foreach.simps
      example_world_def prefixes_snoc [of "[]", simplified])

lemma number_of_atoms_tokens: "split_ws (number_of_atoms_of counts) = map str_int counts"
proof -
  have "split_ws (join '' '' (map str_int counts)) =
        split_ws (join '' '' (map str_int counts) @ [CHR 0x0A])"
    by (simp add: split_ws_snoc)
  also have "\<dots> = map str_int counts"
    by (rule split_ws_join) (simp add: str_int_token)
  finally show ?thesis
    by (simp add: number_of_atoms_of_def)
qed

lemma doubles_of_keys: "map fst (doubles_of rwigs_values) = map fst rwigs_values"
  by (induction rwigs_values) (auto simp: doubles_of_def)

lemma repeated_matrix:
  "calculate_distance_of_ion (doubles_of [(''Fe'', 11 / 10)]) =
     Inr [[Finite (5944751508129055 / 4503599627370496)]]"
  by code_simp

text \<open>
  Claim C10, as stated, fails: for the element list \<open>Fe, Fe\<close> the radius map has one
  entry, so the matrix has dimension 1, while the list has length 2, the number the
  descriptor gives as \<^verbatim>\<open>NumberOfSpecies\<close>.
\<close>

theorem radius_map_repeated_symbol_counterexample:
  "fst (find_potcar [''Fe'', ''Fe''] [''run''] [''pot''] example_world) =
     Inr ([(''Fe'', 11 / 10)], Some (11 / 10)) \<and>
   calculate_distance_of_ion (doubles_of [(''Fe'', 11 / 10)]) =
     Inr [[Finite (5944751508129055 / 4503599627370496)]] \<and>
   length [[Finite (5944751508129055 / 4503599627370496)]] \<noteq> length [''Fe'', ''Fe'']"
  using find_potcar_repeated repeated_matrix by simp

text \<open>
  Claim C10, amended. When \<^verbatim>\<open>find_potcar\<close> returns, the radius map has one entry for
  each distinct requested element, in the order of the first occurrences. When no symbol
  is repeated, the keys are the element list itself, and the distance matrix built from
  the map is square of the dimension of the element list; every \<^verbatim>\<open>input.dat\<close> that
  \<^verbatim>\<open>create_input_dat\<close> writes from that list and that matrix gives the dimension of the
  matrix as \<^verbatim>\<open>NumberOfSpecies\<close>, and its \<^verbatim>\<open>NumberOfAtoms\<close> field has as many counts as the
  matrix has rows when as many atom counts as elements are given.
\<close>

theorem radius_map_keys:
  assumes "find_potcar els dest proot w = (Inr (rwigs_values, min_latom_dis), w')"
  shows "map fst rwigs_values = first_occurrences els \<and>
         distinct (map fst rwigs_values) \<and> set (map fst rwigs_values) = set els \<and>
         (distinct els \<longrightarrow>
            map fst rwigs_values = els \<and>
            (\<exists>M. calculate_distance_of_ion (doubles_of rwigs_values) = Inr M \<and>
               length M = length els \<and> (\<forall>i < length els. length (M ! i) = length els) \<and>
               (\<forall>repr_float directory counts two_d layers relax base_area ltm formula_value w1 w2.
                  create_input_dat repr_float directory els counts M min_latom_dis two_d layers
                    relax base_area ltm formula_value w1 = (Inr (), w2) \<longrightarrow>
                  (\<exists>two_d_parameters.
                     files w2 (directory @ [''input.dat'']) =
                       Some (input_template (system_name_of els counts) (str_int (int (length M)))
                               (join '' '' els) (number_of_atoms_of counts)
                               (distance_of_ion_str_of M) two_d_parameters)) \<and>
                  (length counts = length els \<longrightarrow>
                     length (split_ws (number_of_atoms_of counts)) = length M))))"
proof -
  have k: "map fst rwigs_values = first_occurrences els"
    using find_potcar_Inr [OF assms] .
  have d: "distinct (map fst rwigs_values)"
    by (simp add: k)
  have s: "set (map fst rwigs_values) = set els"
    by (simp add: k)
  have "map fst rwigs_values = els \<and>
        (\<exists>M. calculate_distance_of_ion (doubles_of rwigs_values) = Inr M \<and>
           length M = length els \<and> (\<forall>i < length els. length (M ! i) = length els) \<and>
           (\<forall>repr_float directory counts two_d layers relax base_area ltm formula_value w1 w2.
              create_input_dat repr_float directory els counts M min_latom_dis two_d layers
                relax base_area ltm formula_value w1 = (Inr (), w2) \<longrightarrow>
              (\<exists>two_d_parameters.
                 files w2 (directory @ [''input.dat'']) =
                   Some (input_template (system_name_of els counts) (str_int (int (length M)))
                           (join '' '' els) (number_of_atoms_of counts)
                           (distance_of_ion_str_of M) two_d_parameters)) \<and>
              (length counts = length els \<longrightarrow>
                 length (split_ws (number_of_atoms_of counts)) = length M)))"
    (is ?unique) if "distinct els"
  proof -
    have e: "map fst rwigs_values = els"
      using k first_occurrences_id [OF that] by simp
    have n: "length (doubles_of rwigs_values) = length els"
      using e by (metis doubles_of_keys length_map)
    from calculate_distance_of_ion_square [of "doubles_of rwigs_values"] obtain M where
      M: "calculate_distance_of_ion (doubles_of rwigs_values) = Inr M" and
      l: "length M = length els" and
      r: "\<forall>i < length els. length (M ! i) = length els"
      unfolding n by blast
    have "(\<exists>two_d_parameters.
             files w2 (directory @ [''input.dat'']) =
               Some (input_template (system_name_of els counts) (str_int (int (length M)))
                       (join '' '' els) (number_of_atoms_of counts)
                       (distance_of_ion_str_of M) two_d_parameters)) \<and>
          (length counts = length els \<longrightarrow>
             length (split_ws (number_of_atoms_of counts)) = length M)"
      if "create_input_dat repr_float directory els counts M min_latom_dis two_d layers
            relax base_area ltm formula_value w1 = (Inr (), w2)"
      for repr_float directory counts two_d layers relax base_area ltm formula_value w1 w2
      using create_input_dat_Inr [OF that] by (simp add: l number_of_atoms_tokens)
    with e M l r show ?thesis
      by blast
  qed
  then have "distinct els \<longrightarrow> ?unique"
    by (rule impI)
  with k d s show ?thesis
    by (intro conjI)
qed

theorem radius_map_keys_witness:
  "find_potcar [''Fe'', ''O''] [''run''] [''pot''] example_world =
     (Inr ([(''Fe'', 11 / 10), (''O'', 8 / 10)], Some (8 / 10)),
      snd (find_potcar [''Fe'', ''O''] [''run''] [''pot''] example_world)) \<and>
   distinct [''Fe'', ''O''] \<and>
   map fst [(''Fe'', 11 / 10 :: pyfloat), (''O'', 8 / 10)] = [''Fe'', ''O''] \<and>
   (\<exists>M w2 two_d_parameters.
      calculate_distance_of_ion (doubles_of [(''Fe'', 11 / 10), (''O'', 8 / 10)]) = Inr M \<and>
      length M = 2 \<and>
      create_input_dat example_repr [''run''] [''Fe'', ''O''] [1, 1] M (Some (8 / 10))
        False 1 False None None 1 example_world = (Inr (), w2) \<and>
      files w2 [''run'', ''input.dat''] =
        Some (input_template ''Fe1O1'' ''2'' ''Fe O'' ''1 1'' (distance_of_ion_str_of M)
                two_d_parameters) \<and>
      length (split_ws ''1 1'') = length M)"
proof -
  let ?rw = "[(''Fe'', 11 / 10 :: pyfloat), (''O'', 8 / 10)]"
  have r: "find_potcar [''Fe'', ''O''] [''run''] [''pot''] example_world =
     (Inr (?rw, Some (8 / 10)),
      snd (find_potcar [''Fe'', ''O''] [''run''] [''pot''] example_world))"
    using find_potcar_example by (metis prod.collapse)
  have d: "distinct [''Fe'', ''O'']"
    by simp
  note u = radius_map_keys [OF r, THEN conjunct2, THEN conjunct2, THEN conjunct2, THEN mp, OF d]
  from u obtain M where
    M: "calculate_distance_of_ion (doubles_of ?rw) = Inr M" and
    l: "length M = length [''Fe'', ''O'']" and
    c: "\<forall>repr_float directory counts two_d layers relax base_area ltm formula_value w1 w2.
          create_input_dat repr_float directory [''Fe'', ''O''] counts M (Some (8 / 10)) two_d
            layers relax base_area ltm formula_value w1 = (Inr (), w2) \<longrightarrow>
          (\<exists>two_d_parameters.
             files w2 (directory @ [''input.dat'']) =
               Some (input_template (system_name_of [''Fe'', ''O''] counts)
                       (str_int (int (length M))) (join '' '' [''Fe'', ''O''])
                       (number_of_atoms_of counts) (distance_of_ion_str_of M)
                       two_d_parameters)) \<and>
          (length counts = length [''Fe'', ''O''] \<longrightarrow>
             length (split_ws (number_of_atoms_of counts)) = length M)"
    by blast
  have k: "map fst ?rw = [''Fe'', ''O'']"
    by simp
  define w2 where
    "w2 = snd (create_input_dat example_repr [''run''] [''Fe'', ''O''] [1, 1] M (Some (8 / 10))
                 False 1 False None None 1 example_world)"
  have run: "create_input_dat example_repr [''run''] [''Fe'', ''O''] [1, 1] M (Some (8 / 10))
               False 1 False None None 1 example_world = (Inr (), w2)"
    unfolding w2_def using create_input_dat_example [of M] by (metis prod.collapse)
  have f: "system_name_of [''Fe'', ''O''] [1, 1] = ''Fe1O1''" "str_int 2 = ''2''"
    "join '' '' [''Fe'', ''O''] = ''Fe O''" "number_of_atoms_of [1, 1] = ''1 1''"
    by code_simp+
  from c [rule_format, OF run] l f obtain two_d_parameters where
    "files w2 [''run'', ''input.dat''] =
       Some (input_template ''Fe1O1'' ''2'' ''Fe O'' ''1 1'' (distance_of_ion_str_of M)
               two_d_parameters)" and
    "length (split_ws ''1 1'') = length M"
    by auto
  with r d k M l run show ?thesis
    by auto
qed

end
